theory Spec2Isabelle
  imports Complex_Main "HOL-Library.Multiset" "HOL-Library.AList"
begin

section \<open>Conventions of the embedding\<close>

text \<open>
  The Python sources are embedded function by function.  A Python \<open>float\<close> is a
  \<^typ>\<open>real\<close>: rounding, overflow and NaN are outside the model, and every statement
  below is about exact arithmetic.  A coordinate pair is a pair of reals.  An exception
  is a value \<open>Inl e\<close> of a sum type, and Python's \<open>None\<close> is \<open>None\<close> of an option type.
  The functions of module \<open>random\<close> read their results from an explicit random source,
  which is passed through each operation and returned.
\<close>

type_synonym point = "real \<times> real"

datatype error =
  ValueError string
  | RuntimeError string
  | KeyError string
  | IndexError string
  | AttributeError string

text \<open>\<open>float('inf')\<close> or a finite number: the type of the running minima.\<close>

datatype fbound = Infinity | Finite real

fun lt_bound :: "real \<Rightarrow> fbound \<Rightarrow> bool" where
  "lt_bound d Infinity = True"
| "lt_bound d (Finite b) = (d < b)"

section \<open>helper\_functions.py\<close>

definition euclidean_distance :: "point \<Rightarrow> point \<Rightarrow> real" where
  "euclidean_distance loc1 loc2 =
     sqrt ((fst loc1 - fst loc2)\<^sup>2 + (snd loc1 - snd loc2)\<^sup>2)"

text \<open>
  \<open>total_route_distance\<close>: the loop over \<open>range(len(stops) - 1)\<close> is a left fold over
  the indices; the closing leg is added when asked for and the route has more than one stop.
\<close>

definition total_route_distance :: "point list \<Rightarrow> bool \<Rightarrow> real" where
  "total_route_distance sts to_depot =
     (if sts = [] then 0
      else
        let distance =
              foldl (\<lambda>acc i. acc + euclidean_distance (sts ! i) (sts ! (i + 1)))
                0 [0..<length sts - 1]
        in if to_depot \<and> length sts > 1
           then distance + euclidean_distance (last sts) (sts ! 0)
           else distance)"

text \<open>
  Callers also pass the optimizer's result, which Python types as optional: \<open>not stops\<close>
  is true of \<open>None\<close> as of the empty list.
\<close>

definition total_route_distance_opt :: "point list option \<Rightarrow> bool \<Rightarrow> real" where
  "total_route_distance_opt r to_depot =
     (case r of None \<Rightarrow> 0 | Some sts \<Rightarrow> total_route_distance sts to_depot)"

definition calculate_visibility_matrix :: "point list \<Rightarrow> real list list" where
  "calculate_visibility_matrix sts =
     map (\<lambda>i. map (\<lambda>j. if i \<noteq> j
                        then 1 / (euclidean_distance (sts ! i) (sts ! j) + 1 / 1000000)
                        else 0)
                 [0..<length sts])
         [0..<length sts]"

definition normalize_matrix :: "real list \<Rightarrow> real list" where
  "normalize_matrix matrix =
     (let total = sum_list matrix
      in if total = 0 then map (\<lambda>_. 1 / real (length matrix)) matrix
         else map (\<lambda>x. x / total) matrix)"

section \<open>Order.py and Truck.py\<close>

record order =
  order_id :: string
  weight_o :: real
  pickup_o :: point
  dropoff_o :: point

record truck =
  truck_id :: string
  current_location_T :: point
  max_capacity_T :: real
  assigned_orders :: "order list"
  route :: "point list option"
  remaining_capacity :: real

definition Truck_init :: "string \<Rightarrow> point \<Rightarrow> real \<Rightarrow> truck" where
  "Truck_init tid loc cap =
     \<lparr> truck_id = tid, current_location_T = loc, max_capacity_T = cap,
       assigned_orders = [], route = Some [loc], remaining_capacity = cap \<rparr>"

definition update_capacity :: "truck \<Rightarrow> truck" where
  "update_capacity t =
     (let used_capacity = sum_list (map weight_o (assigned_orders t))
      in t\<lparr> remaining_capacity := max_capacity_T t - used_capacity \<rparr>)"

definition add_order :: "truck \<Rightarrow> order \<Rightarrow> truck" where
  "add_order t ord = update_capacity (t\<lparr> assigned_orders := assigned_orders t @ [ord] \<rparr>)"

section \<open>CIACO\_Algo.py\<close>

subsection \<open>The optimizer object\<close>

record ciaco =
  num_ants :: int
  iterations :: int
  alpha :: real
  beta :: real
  evaporation_rate :: real
  initial_pheromone :: real
  return_to_depot :: bool
  num_clusters :: int
  elitist_factor :: real
  pheromone_matrix :: "real list list option"
  distance_matrix :: "real list list option"
  visibility_matrix :: "real list list option"
  best_route :: "point list option"
  best_distance :: fbound
  stops :: "point list option"
  clusters :: "nat list list option"

text \<open>The constructor: eight checks in the source's order, then the initial fields.\<close>

definition CIACO_init ::
  "int \<Rightarrow> int \<Rightarrow> real \<Rightarrow> real \<Rightarrow> real \<Rightarrow> real \<Rightarrow> bool \<Rightarrow> int \<Rightarrow> real \<Rightarrow> error + ciaco" where
  "CIACO_init ants iters a b evap init_ph to_depot k elitist =
     (if ants \<le> 0 then Inl (ValueError ''Number of ants must be positive'')
      else if iters \<le> 0 then Inl (ValueError ''Number of iterations must be positive'')
      else if a < 0 then Inl (ValueError ''Alpha must be non-negative'')
      else if b < 0 then Inl (ValueError ''Beta must be non-negative'')
      else if \<not> (0 \<le> evap \<and> evap \<le> 1)
        then Inl (ValueError ''Evaporation rate must be between 0 and 1'')
      else if init_ph \<le> 0 then Inl (ValueError ''Initial pheromone must be positive'')
      else if k \<le> 0 then Inl (ValueError ''Number of clusters must be positive'')
      else if elitist < 1 then Inl (ValueError ''Elitist factor must be >= 1'')
      else Inr \<lparr> num_ants = ants, iterations = iters, alpha = a, beta = b,
                 evaporation_rate = evap, initial_pheromone = init_ph,
                 return_to_depot = to_depot, num_clusters = k, elitist_factor = elitist,
                 pheromone_matrix = None, distance_matrix = None,
                 visibility_matrix = None, best_route = None, best_distance = Infinity,
                 stops = None, clusters = None \<rparr>)"

subsection \<open>The random source\<close>

text \<open>
  \<open>random.sample(range(n), k)\<close> and \<open>random.choices(range(n), weights, k=1)[0]\<close> take
  their results from two tapes.  A sample that the library cannot return (wrong length, a
  repeated or out-of-range index) and an exhausted tape give \<open>None\<close>: the tapes then
  describe no finished run of the program.  The weights are not part of the model: every
  index below \<open>n\<close> may be drawn at every draw, which covers each draw the weighted choice
  can make, and an index at or above \<open>n\<close> is rejected like a visited one.
\<close>

record random_source =
  sample_results :: "nat list list"
  choices_results :: "nat list"

definition random_sample ::
  "random_source \<Rightarrow> nat \<Rightarrow> int \<Rightarrow> (error + nat list \<times> random_source) option" where
  "random_sample rs n k =
     (if k < 0 \<or> int n < k
      then Some (Inl (ValueError ''Sample larger than population or is negative''))
      else case sample_results rs of
             [] \<Rightarrow> None
           | smp # rest \<Rightarrow>
               if length smp = nat k \<and> distinct smp \<and> list_all (\<lambda>i. i < n) smp
               then Some (Inr (smp, rs\<lparr> sample_results := rest \<rparr>))
               else None)"

subsection \<open>Clustering\<close>

text \<open>\<open>np.argmin\<close>: the index of the first minimum; it raises on an empty sequence.\<close>

fun argmin_acc :: "nat \<Rightarrow> real \<Rightarrow> nat \<Rightarrow> real list \<Rightarrow> nat" where
  "argmin_acc bi bv i [] = bi"
| "argmin_acc bi bv i (x # xs) =
     (if x < bv then argmin_acc i x (Suc i) xs else argmin_acc bi bv (Suc i) xs)"

definition argmin :: "real list \<Rightarrow> nat option" where
  "argmin xs = (case xs of [] \<Rightarrow> None | x # rest \<Rightarrow> Some (argmin_acc 0 x 1 rest))"

definition mean_point :: "point list \<Rightarrow> nat list \<Rightarrow> point" where
  "mean_point points cluster =
     (sum_list (map (\<lambda>i. fst (points ! i)) cluster) / real (length cluster),
      sum_list (map (\<lambda>i. snd (points ! i)) cluster) / real (length cluster))"

definition isclose :: "real \<Rightarrow> real \<Rightarrow> bool" where
  "isclose a b = (\<bar>a - b\<bar> \<le> 1 / 100000 + 1 / 100000 * \<bar>b\<bar>)"

definition allclose :: "point list \<Rightarrow> point list \<Rightarrow> bool" where
  "allclose a b = list_all2 (\<lambda>p q. isclose (fst p) (fst q) \<and> isclose (snd p) (snd q)) a b"

text \<open>The assignment pass: each point goes to the cluster of its nearest centroid.\<close>

fun assign_points ::
  "point list \<Rightarrow> point list \<Rightarrow> nat list \<Rightarrow> nat list list \<Rightarrow> error + nat list list" where
  "assign_points points centroids [] cl = Inr cl"
| "assign_points points centroids (i # rest) cl =
     (case argmin (map (euclidean_distance (points ! i)) centroids) of
        None \<Rightarrow> Inl (ValueError ''attempt to get argmin of an empty sequence'')
      | Some cluster_idx \<Rightarrow>
          assign_points points centroids rest (cl[cluster_idx := cl ! cluster_idx @ [i]]))"

text \<open>
  The loop \<open>for _ in range(100)\<close>: the first argument counts the rounds left, the last is
  the value of \<open>clusters\<close> from the round before, returned when the rounds run out.
\<close>

fun kmeans_loop ::
  "nat \<Rightarrow> point list \<Rightarrow> nat \<Rightarrow> point list \<Rightarrow> nat list list \<Rightarrow> error + nat list list" where
  "kmeans_loop 0 points k centroids cl = Inr cl"
| "kmeans_loop (Suc m) points k centroids cl =
     (case assign_points points centroids [0..<length points] (replicate k []) of
        Inl e \<Rightarrow> Inl e
      | Inr cl' \<Rightarrow>
          let new_centroids = map (mean_point points) (filter (\<lambda>c. c \<noteq> []) cl')
          in if length new_centroids = length centroids \<and> allclose centroids new_centroids
             then Inr cl'
             else kmeans_loop m points k new_centroids cl')"

definition cluster_stops ::
  "ciaco \<Rightarrow> random_source \<Rightarrow> (error + nat list list \<times> random_source) option" where
  "cluster_stops s rs =
     (case stops s of
        None \<Rightarrow> Some (Inl (RuntimeError ''Stops not initialized''))
      | Some sts \<Rightarrow>
          let n = length sts
          in if int n \<le> num_clusters s then Some (Inr (map (\<lambda>i. [i]) [0..<n], rs))
             else (case random_sample rs n (num_clusters s) of
                     None \<Rightarrow> None
                   | Some (Inl e) \<Rightarrow> Some (Inl e)
                   | Some (Inr (smp, rs')) \<Rightarrow>
                       (case kmeans_loop 100 sts (nat (num_clusters s))
                               (map (\<lambda>i. sts ! i) smp) [] of
                          Inl e \<Rightarrow> Some (Inl e)
                        | Inr cl \<Rightarrow> Some (Inr (cl, rs')))))"

subsection \<open>Pheromone initialisation\<close>

definition fill_diagonal :: "real list list \<Rightarrow> real \<Rightarrow> real list list" where
  "fill_diagonal m v = map (\<lambda>i. (m ! i)[i := v]) [0..<length m]"

definition scale_entry :: "real list list \<Rightarrow> nat \<Rightarrow> nat \<Rightarrow> real \<Rightarrow> real list list" where
  "scale_entry m i j c = m[i := (m ! i)[j := m ! i ! j * c]]"

text \<open>The two statements of the innermost loop body, in their order.\<close>

definition strengthen :: "real list list \<Rightarrow> nat \<times> nat \<Rightarrow> real list list" where
  "strengthen m ij = scale_entry (scale_entry m (fst ij) (snd ij) (3 / 2)) (snd ij) (fst ij) (3 / 2)"

text \<open>The index pairs in the order in which the three nested loops reach the body.\<close>

definition cluster_pairs :: "nat list list \<Rightarrow> (nat \<times> nat) list" where
  "cluster_pairs cl =
     concat (map (\<lambda>cluster. concat (map (\<lambda>i. map (Pair i) (filter (\<lambda>j. i \<noteq> j) cluster)) cluster)) cl)"

definition initialize_pheromones :: "ciaco \<Rightarrow> error + ciaco" where
  "initialize_pheromones s =
     (case (stops s, clusters s) of
        (Some sts, Some cl) \<Rightarrow>
          let n = length sts;
              ones = replicate n (replicate n (1 * initial_pheromone s))
          in Inr (s\<lparr> pheromone_matrix :=
                       Some (foldl strengthen (fill_diagonal ones 0) (cluster_pairs cl)) \<rparr>)
      | _ \<Rightarrow> Inl (RuntimeError ''Stops and clusters must be initialized''))"

subsection \<open>One ant\<close>

text \<open>
  The draw and the loop \<open>while next_city not in unvisited\<close> that repeats it: the first
  index on the tape that is still unvisited.
\<close>

fun draw_unvisited :: "nat list \<Rightarrow> nat list \<Rightarrow> (nat \<times> nat list) option" where
  "draw_unvisited unvisited [] = None"
| "draw_unvisited unvisited (c # tape) =
     (if c \<in> set unvisited then Some (c, tape) else draw_unvisited unvisited tape)"

function construct_loop ::
  "point list \<Rightarrow> nat list \<Rightarrow> point list \<Rightarrow> nat list \<Rightarrow> (point list \<times> nat list) option" where
  "construct_loop sts unvisited r tape =
     (if unvisited = [] then Some (r, tape)
      else case draw_unvisited unvisited tape of
             None \<Rightarrow> None
           | Some (next_city, tape') \<Rightarrow>
               construct_loop sts (remove1 next_city unvisited) (r @ [sts ! next_city]) tape')"
  by pat_completeness auto
termination
proof (relation "measure (\<lambda>(sts, unvisited, r, tape). length unvisited)")
  show "wf (measure (\<lambda>(sts, unvisited, r, tape). length unvisited))"
    by simp
next
  fix sts :: "point list" and unvisited r tape x2 next_city tape'
  assume "unvisited \<noteq> []" and d: "draw_unvisited unvisited tape = Some x2"
    and x: "(next_city, tape') = x2"
  have "\<And>u. draw_unvisited unvisited tape = Some u \<Longrightarrow> fst u \<in> set unvisited"
    by (induction tape) (auto split: if_splits)
  from this [OF d] x have "next_city \<in> set unvisited"
    by auto
  then show "((sts, remove1 next_city unvisited, r @ [sts ! next_city], tape'),
              (sts, unvisited, r, tape))
             \<in> measure (\<lambda>(sts, unvisited, r, tape). length unvisited)"
    using length_pos_if_in_set [of next_city unvisited] by (simp add: length_remove1)
qed

definition construct_solution ::
  "ciaco \<Rightarrow> nat list \<Rightarrow> (error + point list \<times> nat list) option" where
  "construct_solution s tape =
     (case (stops s, pheromone_matrix s, visibility_matrix s) of
        (Some sts, Some pm, Some vm) \<Rightarrow>
          if sts = [] then Some (Inl (IndexError ''list index out of range''))
          else (case construct_loop sts [1..<length sts] [sts ! 0] tape of
                  None \<Rightarrow> None
                | Some (r, tape') \<Rightarrow>
                    Some (Inr (if return_to_depot s then r @ [sts ! 0] else r, tape')))
      | _ \<Rightarrow> Some (Inl (RuntimeError ''Algorithm not properly initialized'')))"

subsection \<open>Pheromone update\<close>

text \<open>\<open>list.index\<close>: the first position of a value, compared by equality.\<close>

fun index_of :: "'a list \<Rightarrow> 'a \<Rightarrow> nat option" where
  "index_of [] x = None"
| "index_of (y # ys) x = (if x = y then Some 0 else map_option Suc (index_of ys x))"

definition add_entry :: "real list list \<Rightarrow> nat \<Rightarrow> nat \<Rightarrow> real \<Rightarrow> real list list" where
  "add_entry m i j c = m[i := (m ! i)[j := m ! i ! j + c]]"

fun deposit :: "point list \<Rightarrow> real \<Rightarrow> point list \<Rightarrow> real list list \<Rightarrow> error + real list list" where
  "deposit sts contribution (a # b # rest) pm =
     (case index_of sts a of
        None \<Rightarrow> Inl (ValueError ''value is not in list'')
      | Some current \<Rightarrow>
          (case index_of sts b of
             None \<Rightarrow> Inl (ValueError ''value is not in list'')
           | Some next_stop \<Rightarrow>
               deposit sts contribution (b # rest)
                 (add_entry (add_entry pm current next_stop contribution)
                    next_stop current contribution)))"
| "deposit sts contribution r pm = Inr pm"

fun deposit_all ::
  "point list \<Rightarrow> (point list \<times> real) list \<Rightarrow> real list list \<Rightarrow> error + real list list" where
  "deposit_all sts [] pm = Inr pm"
| "deposit_all sts ((r, distance) # rest) pm =
     (case deposit sts (1 / (distance + 1 / 10000000000)) r pm of
        Inl e \<Rightarrow> Inl e
      | Inr pm' \<Rightarrow> deposit_all sts rest pm')"

definition update_pheromones :: "ciaco \<Rightarrow> point list list \<Rightarrow> real list \<Rightarrow> error + ciaco" where
  "update_pheromones s ant_routes ant_distances =
     (case (stops s, pheromone_matrix s) of
        (Some sts, Some pm) \<Rightarrow>
          let evaporated = map (map (\<lambda>x. x * (1 - evaporation_rate s))) pm
          in (case argmin ant_distances of
                None \<Rightarrow> Inl (ValueError ''attempt to get argmin of an empty sequence'')
              | Some best_ant_idx \<Rightarrow>
                  (case deposit_all sts (zip ant_routes ant_distances) evaporated of
                     Inl e \<Rightarrow> Inl e
                   | Inr pm' \<Rightarrow>
                       (case deposit sts
                               (elitist_factor s /
                                  (ant_distances ! best_ant_idx + 1 / 10000000000))
                               (ant_routes ! best_ant_idx) pm' of
                          Inl e \<Rightarrow> Inl e
                        | Inr pm'' \<Rightarrow> Inr (s\<lparr> pheromone_matrix := Some pm'' \<rparr>))))
      | _ \<Rightarrow> Inl (RuntimeError ''Algorithm not properly initialized''))"

subsection \<open>optimize\_route\<close>

text \<open>The distance matrix, filled by the double loop with its two writes per pair.\<close>

definition set_entry :: "real list list \<Rightarrow> nat \<Rightarrow> nat \<Rightarrow> real \<Rightarrow> real list list" where
  "set_entry m i j v = m[i := (m ! i)[j := v]]"

definition fill_distances :: "point list \<Rightarrow> real list list" where
  "fill_distances sts =
     (let n = length sts
      in foldl (\<lambda>dm (i, j).
                  if i \<noteq> j
                  then let dm' = set_entry dm i j (euclidean_distance (sts ! i) (sts ! j))
                       in set_entry dm' j i (dm' ! i ! j)
                  else dm)
           (replicate n (replicate n 0))
           (concat (map (\<lambda>i. map (Pair i) [0..<n]) [0..<n])))"

text \<open>The inner loop over the ants of one round; it keeps the best route seen so far.\<close>

fun ants_loop ::
  "nat \<Rightarrow> ciaco \<Rightarrow> nat list \<Rightarrow> point list list \<Rightarrow> real list \<Rightarrow>
   (error + ciaco \<times> nat list \<times> point list list \<times> real list) option" where
  "ants_loop 0 s tape ant_routes ant_distances =
     Some (Inr (s, tape, ant_routes, ant_distances))"
| "ants_loop (Suc k) s tape ant_routes ant_distances =
     (case construct_solution s tape of
        None \<Rightarrow> None
      | Some (Inl e) \<Rightarrow> Some (Inl e)
      | Some (Inr (r, tape')) \<Rightarrow>
          let distance = total_route_distance r (return_to_depot s);
              s' = (if lt_bound distance (best_distance s)
                    then s\<lparr> best_distance := Finite distance, best_route := Some r \<rparr>
                    else s)
          in ants_loop k s' tape' (ant_routes @ [r]) (ant_distances @ [distance]))"

text \<open>The main loop over the rounds.\<close>

fun aco_loop :: "nat \<Rightarrow> ciaco \<Rightarrow> nat list \<Rightarrow> (error + ciaco \<times> nat list) option" where
  "aco_loop 0 s tape = Some (Inr (s, tape))"
| "aco_loop (Suc k) s tape =
     (case ants_loop (nat (num_ants s)) s tape [] [] of
        None \<Rightarrow> None
      | Some (Inl e) \<Rightarrow> Some (Inl e)
      | Some (Inr (s1, tape1, ant_routes, ant_distances)) \<Rightarrow>
          (case update_pheromones s1 ant_routes ant_distances of
             Inl e \<Rightarrow> Some (Inl e)
           | Inr s2 \<Rightarrow> aco_loop k s2 tape1))"

text \<open>
  The part of \<open>optimize_route\<close> before the main loop: it stores the stops, fills the
  distance and visibility matrices, clusters the stops and initialises the pheromones.
\<close>

definition optimize_setup ::
  "ciaco \<Rightarrow> random_source \<Rightarrow> point list \<Rightarrow> (error + ciaco \<times> random_source) option" where
  "optimize_setup s rs sts =
     (let s1 = s\<lparr> stops := Some sts,
                  distance_matrix := Some (fill_distances sts),
                  visibility_matrix := Some (calculate_visibility_matrix sts) \<rparr>
      in case cluster_stops s1 rs of
           None \<Rightarrow> None
         | Some (Inl e) \<Rightarrow> Some (Inl e)
         | Some (Inr (cl, rs')) \<Rightarrow>
             (case initialize_pheromones (s1\<lparr> clusters := Some cl \<rparr>) of
                Inl e \<Rightarrow> Some (Inl e)
              | Inr s2 \<Rightarrow> Some (Inr (s2, rs'))))"

text \<open>
  \<open>optimize_route\<close> returns the route (optional, as \<open>self.best_route\<close> is), the optimizer
  after the call and the rest of the random source.
\<close>

definition optimize_route ::
  "ciaco \<Rightarrow> random_source \<Rightarrow> point list \<Rightarrow>
   (error + point list option \<times> ciaco \<times> random_source) option" where
  "optimize_route s rs sts =
     (if sts = [] then Some (Inl (ValueError ''Stops list cannot be empty''))
      else if length sts \<le> 2 then Some (Inr (Some sts, s, rs))
      else case optimize_setup s rs sts of
             None \<Rightarrow> None
           | Some (Inl e) \<Rightarrow> Some (Inl e)
           | Some (Inr (s1, rs1)) \<Rightarrow>
               (case aco_loop (nat (iterations s1)) s1 (choices_results rs1) of
                  None \<Rightarrow> None
                | Some (Inl e) \<Rightarrow> Some (Inl e)
                | Some (Inr (s2, tape)) \<Rightarrow>
                    Some (Inr (best_route s2, s2, rs1\<lparr> choices_results := tape \<rparr>))))"

section \<open>dynamic\_routing.py\<close>

subsection \<open>The registry\<close>

text \<open>
  A truck and a delivery are dictionaries in the source; here they are records with the
  keys that the operations read.  The keys \<open>hex_id\<close>, \<open>pickup_hex\<close>, \<open>dropoff_hex\<close> and
  \<open>last_update\<close> are written and never read by the operations below, and are left out
  with the map object.  The status strings are the three constructors of \<open>status\<close>.
  The dictionary of trucks is an association list in insertion order, since the searches
  go through it in that order; the dictionary of deliveries is only looked up by key.
  A point in time is a real number of hours, and the clock \<open>datetime.now()\<close> is an
  argument of the operation that reads it.
\<close>

datatype status = pending | in_progress | completed

record delivery =
  pickup :: point
  dropoff :: point
  weight :: real
  status :: status
  assigned_truck :: "string option"
  time_window :: "(real \<times> real) option"

record truck_state =
  max_capacity :: real
  current_capacity :: real
  current_location :: point
  current_route :: "point list option"
  truck_deliveries :: "string list"
  total_weight :: real

record routing_system =
  trucks :: "(string \<times> truck_state) list"
  deliveries :: "string \<rightharpoonup> delivery"
  ciaco :: ciaco

definition DynamicRoutingSystem_init :: "error + routing_system" where
  "DynamicRoutingSystem_init =
     (case CIACO_init 10 50 1 2 (1 / 10) 1 True 3 2 of
        Inl e \<Rightarrow> Inl e
      | Inr c \<Rightarrow> Inr \<lparr> trucks = [], deliveries = Map.empty, ciaco = c \<rparr>)"

definition add_truck :: "routing_system \<Rightarrow> string \<Rightarrow> real \<Rightarrow> point \<Rightarrow> routing_system" where
  "add_truck s tid cap loc =
     s\<lparr> trucks :=
          AList.update tid
            \<lparr> max_capacity = cap, current_capacity = cap, current_location = loc,
              current_route = Some [], truck_deliveries = [], total_weight = 0 \<rparr>
            (trucks s) \<rparr>"

definition add_delivery ::
  "routing_system \<Rightarrow> string \<Rightarrow> point \<Rightarrow> point \<Rightarrow> real \<Rightarrow> (real \<times> real) option \<Rightarrow> routing_system"
  where
  "add_delivery s did pick dropp w tw =
     s\<lparr> deliveries :=
          (deliveries s)(did \<mapsto>
            \<lparr> pickup = pick, dropoff = dropp, weight = w, status = pending,
              assigned_truck = None, time_window = tw \<rparr>) \<rparr>"

definition calculate_distance :: "point \<Rightarrow> point \<Rightarrow> real" where
  "calculate_distance point1 point2 =
     sqrt ((fst point1 - fst point2)\<^sup>2 + (snd point1 - snd point2)\<^sup>2)"

subsection \<open>find\_suitable\_truck\<close>

text \<open>
  \<open>_can_meet_time_window\<close> looks the truck up by the identifier that the caller has just
  read from the dictionary; here the caller passes the truck.  The two estimates for the
  drop-off are computed and not used by the source's result.
\<close>

definition can_meet_time_window ::
  "truck_state \<Rightarrow> delivery \<Rightarrow> real \<Rightarrow> real \<Rightarrow> real \<Rightarrow> bool" where
  "can_meet_time_window t d current_time start_time end_time =
     (if current_time > end_time then False
      else
        let effective_start = max current_time start_time;
            distance_to_pickup = calculate_distance (current_location t) (pickup d);
            estimated_time_to_pickup = effective_start + distance_to_pickup / 80
        in estimated_time_to_pickup \<le> end_time)"

fun suitable_loop ::
  "delivery \<Rightarrow> real \<Rightarrow> (string \<times> truck_state) list \<Rightarrow> string option \<Rightarrow> fbound \<Rightarrow> string option"
  where
  "suitable_loop d now [] best_truck min_distance = best_truck"
| "suitable_loop d now ((tid, t) # rest) best_truck min_distance =
     (if total_weight t + weight d > max_capacity t
      then suitable_loop d now rest best_truck min_distance
      else if current_capacity t \<ge> weight d
      then if (case time_window d of
                 None \<Rightarrow> False
               | Some (start_time, end_time) \<Rightarrow>
                   \<not> can_meet_time_window t d now start_time end_time)
           then suitable_loop d now rest best_truck min_distance
           else
             let distance = calculate_distance (current_location t) (pickup d)
             in if lt_bound distance min_distance
                then suitable_loop d now rest (Some tid) (Finite distance)
                else suitable_loop d now rest best_truck min_distance
      else suitable_loop d now rest best_truck min_distance)"

definition find_suitable_truck :: "routing_system \<Rightarrow> real \<Rightarrow> string \<Rightarrow> error + string option" where
  "find_suitable_truck s now did =
     (case deliveries s did of
        None \<Rightarrow> Inl (KeyError did)
      | Some d \<Rightarrow> Inr (suitable_loop d now (trucks s) None Infinity))"

subsection \<open>Route of one truck\<close>

fun in_progress_dropoffs :: "(string \<rightharpoonup> delivery) \<Rightarrow> string list \<Rightarrow> error + point list" where
  "in_progress_dropoffs ds [] = Inr []"
| "in_progress_dropoffs ds (did # rest) =
     (case ds did of
        None \<Rightarrow> Inl (KeyError did)
      | Some d \<Rightarrow>
          (case in_progress_dropoffs ds rest of
             Inl e \<Rightarrow> Inl e
           | Inr ps \<Rightarrow> Inr (if status d = in_progress then dropoff d # ps else ps)))"

text \<open>\<open>DynamicRoutingSystem.optimize_route\<close>; the name of the optimizer's method is taken.\<close>

definition optimize_route_truck ::
  "routing_system \<Rightarrow> random_source \<Rightarrow> string \<Rightarrow> string \<Rightarrow>
   (error + point list option \<times> ciaco \<times> random_source) option" where
  "optimize_route_truck s rs tid new_delivery_id =
     (case map_of (trucks s) tid of
        None \<Rightarrow> Some (Inl (KeyError tid))
      | Some t \<Rightarrow>
          (case deliveries s new_delivery_id of
             None \<Rightarrow> Some (Inl (KeyError new_delivery_id))
           | Some new_delivery \<Rightarrow>
               (case in_progress_dropoffs (deliveries s) (truck_deliveries t) of
                  Inl e \<Rightarrow> Some (Inl e)
                | Inr ps \<Rightarrow>
                    optimize_route (ciaco s) rs
                      ([current_location t] @ ps @
                       [pickup new_delivery, dropoff new_delivery]))))"

subsection \<open>assign\_delivery\<close>

text \<open>
  The statements that bind a delivery to a truck and recompute the truck's route.  They
  stand twice in the source, with the same text: at the end of \<open>assign_delivery\<close> and in
  the loop of \<open>handle_truck_breakdown\<close>.
\<close>

definition bind_delivery ::
  "routing_system \<Rightarrow> random_source \<Rightarrow> string \<Rightarrow> string \<Rightarrow>
   (error + routing_system \<times> random_source) option" where
  "bind_delivery s rs tid did =
     (case map_of (trucks s) tid of
        None \<Rightarrow> Some (Inl (KeyError tid))
      | Some t \<Rightarrow>
          (case deliveries s did of
             None \<Rightarrow> Some (Inl (KeyError did))
           | Some d \<Rightarrow>
               let t1 = t\<lparr> truck_deliveries := truck_deliveries t @ [did],
                           total_weight := total_weight t + weight d,
                           current_capacity := current_capacity t - weight d \<rparr>;
                   s1 = s\<lparr> deliveries :=
                             (deliveries s)(did \<mapsto>
                               d\<lparr> status := in_progress, assigned_truck := Some tid \<rparr>),
                           trucks := AList.update tid t1 (trucks s) \<rparr>
               in (case optimize_route_truck s1 rs tid did of
                     None \<Rightarrow> None
                   | Some (Inl e) \<Rightarrow> Some (Inl e)
                   | Some (Inr (r, c, rs')) \<Rightarrow>
                       Some (Inr (s1\<lparr> trucks :=
                                         AList.update tid (t1\<lparr> current_route := r \<rparr>)
                                           (trucks s1),
                                       ciaco := c \<rparr>, rs')))))"

text \<open>\<open>not truck_id\<close> holds of \<open>None\<close> and of the empty string.\<close>

definition assign_delivery ::
  "routing_system \<Rightarrow> real \<Rightarrow> random_source \<Rightarrow> string \<Rightarrow>
   (error + bool \<times> routing_system \<times> random_source) option" where
  "assign_delivery s now rs did =
     (case deliveries s did of
        None \<Rightarrow> Some (Inr (False, s, rs))
      | Some d \<Rightarrow>
          if status d \<noteq> pending then Some (Inr (False, s, rs))
          else (case find_suitable_truck s now did of
                  Inl e \<Rightarrow> Some (Inl e)
                | Inr None \<Rightarrow> Some (Inr (False, s, rs))
                | Inr (Some tid) \<Rightarrow>
                    if tid = [] then Some (Inr (False, s, rs))
                    else (case bind_delivery s rs tid did of
                            None \<Rightarrow> None
                          | Some (Inl e) \<Rightarrow> Some (Inl e)
                          | Some (Inr (s', rs')) \<Rightarrow> Some (Inr (True, s', rs')))))"

subsection \<open>update\_truck\_status\<close>

text \<open>
  The loop \<open>for delivery_id in truck['deliveries']\<close> runs over the list that its body
  shortens.  Python's list iterator keeps a position: it yields the element at the
  position while the position is inside the list as it is at that moment, and then moves
  one position on.  The loop is modelled with the position and the current list.
\<close>

function status_loop ::
  "point \<Rightarrow> nat \<Rightarrow> truck_state \<Rightarrow> (string \<rightharpoonup> delivery) \<Rightarrow>
   error + truck_state \<times> (string \<rightharpoonup> delivery)" where
  "status_loop new_location i t ds =
     (if i < length (truck_deliveries t)
      then (case ds (truck_deliveries t ! i) of
              None \<Rightarrow> Inl (KeyError (truck_deliveries t ! i))
            | Some d \<Rightarrow>
                if status d = in_progress \<and>
                   calculate_distance new_location (dropoff d) < 1 / 100
                then status_loop new_location (Suc i)
                       (t\<lparr> current_capacity := current_capacity t + weight d,
                           total_weight := total_weight t - weight d,
                           truck_deliveries :=
                             remove1 (truck_deliveries t ! i) (truck_deliveries t) \<rparr>)
                       (ds(truck_deliveries t ! i \<mapsto> d\<lparr> status := completed \<rparr>))
                else status_loop new_location (Suc i) t ds)
      else Inr (t, ds))"
  by pat_completeness auto
termination
  by (relation "measure (\<lambda>(new_location, i, t, ds). length (truck_deliveries t) - i)")
     (auto simp: length_remove1)

definition update_truck_status ::
  "routing_system \<Rightarrow> string \<Rightarrow> point \<Rightarrow> error + routing_system" where
  "update_truck_status s tid new_location =
     (case map_of (trucks s) tid of
        None \<Rightarrow> Inl (KeyError tid)
      | Some t \<Rightarrow>
          (case status_loop new_location 0 (t\<lparr> current_location := new_location \<rparr>)
                  (deliveries s) of
             Inl e \<Rightarrow> Inl e
           | Inr (t', ds) \<Rightarrow>
               Inr (s\<lparr> trucks := AList.update tid t' (trucks s), deliveries := ds \<rparr>)))"

subsection \<open>handle\_truck\_breakdown\<close>

text \<open>The first loop: one record per delivery of the truck, and the delivery reset.\<close>

fun detach ::
  "string list \<Rightarrow> (string \<rightharpoonup> delivery) \<Rightarrow>
   error + (string \<times> real \<times> status) list \<times> (string \<rightharpoonup> delivery)" where
  "detach [] ds = Inr ([], ds)"
| "detach (did # rest) ds =
     (case ds did of
        None \<Rightarrow> Inl (KeyError did)
      | Some d \<Rightarrow>
          (case detach rest (ds(did \<mapsto> d\<lparr> status := pending, assigned_truck := None \<rparr>)) of
             Inl e \<Rightarrow> Inl e
           | Inr (objs, ds') \<Rightarrow> Inr ((did, weight d, status d) # objs, ds')))"

text \<open>
  \<open>sort(key=..., reverse=True)\<close> is stable: the list is reversed, sorted upwards by a
  stable sort and reversed again, so records of equal weight keep their order.
\<close>

definition sort_by_weight :: "(string \<times> real \<times> status) list \<Rightarrow> (string \<times> real \<times> status) list" where
  "sort_by_weight objs = rev (sort_key (\<lambda>obj. fst (snd obj)) (rev objs))"

fun lenient_loop ::
  "delivery \<Rightarrow> (string \<times> truck_state) list \<Rightarrow> string option \<Rightarrow> fbound \<Rightarrow> string option" where
  "lenient_loop d [] new_truck_id min_distance = new_truck_id"
| "lenient_loop d ((tid, t) # rest) new_truck_id min_distance =
     (if current_capacity t \<ge> weight d * (9 / 10)
      then let distance = calculate_distance (current_location t) (pickup d)
           in if lt_bound distance min_distance
              then lenient_loop d rest (Some tid) (Finite distance)
              else lenient_loop d rest new_truck_id min_distance
      else lenient_loop d rest new_truck_id min_distance)"

text \<open>
  The search for a new truck reads the delivery inside the loop over the trucks, so a
  missing delivery raises only when there is a truck to look at.
\<close>

definition find_new_truck :: "routing_system \<Rightarrow> string \<Rightarrow> error + string option" where
  "find_new_truck s did =
     (if trucks s = [] then Inr None
      else case deliveries s did of
             None \<Rightarrow> Inl (KeyError did)
           | Some d \<Rightarrow> Inr (lenient_loop d (trucks s) None Infinity))"

fun reassign_loop ::
  "(string \<times> real \<times> status) list \<Rightarrow> routing_system \<Rightarrow> random_source \<Rightarrow> bool \<Rightarrow>
   (error + bool \<times> routing_system \<times> random_source) option" where
  "reassign_loop [] s rs success = Some (Inr (success, s, rs))"
| "reassign_loop (obj # rest) s rs success =
     (case find_new_truck s (fst obj) of
        Inl e \<Rightarrow> Some (Inl e)
      | Inr None \<Rightarrow> reassign_loop rest s rs False
      | Inr (Some tid) \<Rightarrow>
          if tid = [] then reassign_loop rest s rs False
          else (case bind_delivery s rs tid (fst obj) of
                  None \<Rightarrow> None
                | Some (Inl e) \<Rightarrow> Some (Inl e)
                | Some (Inr (s', rs')) \<Rightarrow> reassign_loop rest s' rs' success))"

definition handle_truck_breakdown ::
  "routing_system \<Rightarrow> random_source \<Rightarrow> string \<Rightarrow>
   (error + bool \<times> routing_system \<times> random_source) option" where
  "handle_truck_breakdown s rs tid =
     (case map_of (trucks s) tid of
        None \<Rightarrow> Some (Inr (False, s, rs))
      | Some t \<Rightarrow>
          (case detach (truck_deliveries t) (deliveries s) of
             Inl e \<Rightarrow> Some (Inl e)
           | Inr (objs, ds) \<Rightarrow>
               reassign_loop (sort_by_weight objs)
                 (s\<lparr> deliveries := ds, trucks := AList.delete tid (trucks s) \<rparr>) rs True))"

section \<open>deliveryManagementSystem.py\<close>

text \<open>
  The system holds its trucks in a list and one optimizer.  Each truck object is taken to
  stand once in the list, so that a truck is identified by its position.  The lines that
  the method prints for each truck it evaluates are its log: the truck, the length of its
  current route, the length of the recomputed route, and whether the route was accepted.
\<close>

record delivery_management_system =
  trucks_dms :: "truck list"
  ciaco_optimizer :: ciaco

type_synonym evaluation = "string \<times> real \<times> real \<times> bool"

definition DeliveryManagementSystem_init :: "error + delivery_management_system" where
  "DeliveryManagementSystem_init =
     (case CIACO_init 10 50 1 2 (1 / 10) 1 True 3 2 of
        Inl e \<Rightarrow> Inl e
      | Inr c \<Rightarrow> Inr \<lparr> trucks_dms = [], ciaco_optimizer = c \<rparr>)"

definition add_truck_dms :: "delivery_management_system \<Rightarrow> truck \<Rightarrow> delivery_management_system" where
  "add_truck_dms sys t = sys\<lparr> trucks_dms := trucks_dms sys @ [t] \<rparr>"

text \<open>\<open>list(dict.fromkeys(xs))\<close> keeps the first occurrence of each element.\<close>

definition fromkeys :: "'a list \<Rightarrow> 'a list" where
  "fromkeys xs = rev (remdups (rev xs))"

definition route_accepted :: "real \<Rightarrow> real \<Rightarrow> bool" where
  "route_accepted current_distance new_distance =
     (new_distance \<le> current_distance * (12 / 10) \<or> current_distance = 0)"

fun try_candidates ::
  "nat list \<Rightarrow> delivery_management_system \<Rightarrow> random_source \<Rightarrow> order \<Rightarrow> evaluation list \<Rightarrow>
   (error + truck option \<times> delivery_management_system \<times> random_source \<times> evaluation list) option"
  where
  "try_candidates [] sys rs ord printed = Some (Inr (None, sys, rs, printed))"
| "try_candidates (i # rest) sys rs ord printed =
     (let t = trucks_dms sys ! i
      in case route t of
           None \<Rightarrow> Some (Inl (AttributeError ''NoneType object has no attribute copy''))
         | Some r \<Rightarrow>
             let new_stops = fromkeys (r @ [pickup_o ord, dropoff_o ord])
             in (case optimize_route (ciaco_optimizer sys) rs new_stops of
                   None \<Rightarrow> None
                 | Some (Inl e) \<Rightarrow> Some (Inl e)
                 | Some (Inr (optimized_route, c, rs')) \<Rightarrow>
                     let current_distance = total_route_distance r True;
                         new_distance = total_route_distance_opt optimized_route True;
                         sys' = sys\<lparr> ciaco_optimizer := c \<rparr>
                     in if route_accepted current_distance new_distance
                        then let t' = (add_order t ord)\<lparr> route := optimized_route \<rparr>
                             in Some (Inr (Some t',
                                   sys'\<lparr> trucks_dms := (trucks_dms sys)[i := t'] \<rparr>, rs',
                                   printed @ [(truck_id t, current_distance, new_distance, True)]))
                        else try_candidates rest sys' rs' ord
                               (printed @ [(truck_id t, current_distance, new_distance, False)])))"

definition assign_new_order ::
  "delivery_management_system \<Rightarrow> random_source \<Rightarrow> order \<Rightarrow>
   (error + truck option \<times> delivery_management_system \<times> random_source \<times> evaluation list) option"
  where
  "assign_new_order sys rs ord =
     (let candidate_trucks =
            filter (\<lambda>i. remaining_capacity (trucks_dms sys ! i) \<ge> weight_o ord)
              [0..<length (trucks_dms sys)]
      in if candidate_trucks = [] then Some (Inr (None, sys, rs, []))
         else try_candidates candidate_trucks sys rs ord [])"

section \<open>Notions used in the statements\<close>

text \<open>
  A route visits all stops: its first \<open>length sts\<close> entries are a rearrangement of the
  stops, it starts at the depot (the stop at index 0), and what follows is the depot once
  more when the optimizer returns to the depot, and nothing otherwise.
\<close>

definition visits_all :: "point list \<Rightarrow> bool \<Rightarrow> point list \<Rightarrow> bool" where
  "visits_all sts to_depot r =
     (mset (take (length sts) r) = mset sts \<and> r ! 0 = sts ! 0 \<and>
      drop (length sts) r = (if to_depot then [sts ! 0] else []))"

text \<open>The best route kept by the optimizer is, if there is one, a route over the stops.\<close>

definition best_ok :: "point list \<Rightarrow> ciaco \<Rightarrow> bool" where
  "best_ok sts s =
     (case best_route s of
        None \<Rightarrow> best_distance s = Infinity
      | Some r \<Rightarrow> visits_all sts (return_to_depot s) r)"

text \<open>
  The draws of \<open>ants\<close> ants that each visit the stops \<open>1, ..., n - 1\<close> in this order.
\<close>

definition in_order_draws :: "nat \<Rightarrow> nat \<Rightarrow> nat list" where
  "in_order_draws ants n = concat (replicate ants [1..<n])"

text \<open>
  The random source can serve the clustering: either no sample is drawn, since there are
  at most \<open>num_clusters\<close> stops, or the next sample on the tape is one that
  \<open>random.sample\<close> can return.
\<close>

definition sample_ready :: "ciaco \<Rightarrow> random_source \<Rightarrow> nat \<Rightarrow> bool" where
  "sample_ready s rs n =
     (int n \<le> num_clusters s \<or>
      (case sample_results rs of
         [] \<Rightarrow> False
       | smp # rest \<Rightarrow>
           length smp = nat (num_clusters s) \<and> distinct smp \<and> list_all (\<lambda>i. i < n) smp))"

text \<open>The random source after the clustering.\<close>

definition after_sample :: "ciaco \<Rightarrow> random_source \<Rightarrow> nat \<Rightarrow> random_source" where
  "after_sample s rs n =
     (if int n \<le> num_clusters s then rs else rs\<lparr> sample_results := tl (sample_results rs) \<rparr>)"

text \<open>The route of an ant that visits the stops in their order.\<close>

definition in_order_route :: "point list \<Rightarrow> bool \<Rightarrow> point list" where
  "in_order_route sts to_depot = sts @ (if to_depot then [sts ! 0] else [])"

text \<open>The optimizer \<open>CIACO()\<close>, built with the default arguments of the constructor.\<close>

definition CIACO_default :: ciaco where
  "CIACO_default =
     \<lparr> num_ants = 10, iterations = 50, alpha = 1, beta = 2, evaporation_rate = 1 / 10,
       initial_pheromone = 1, return_to_depot = True, num_clusters = 3, elitist_factor = 2,
       pheromone_matrix = None, distance_matrix = None, visibility_matrix = None,
       best_route = None, best_distance = Infinity, stops = None, clusters = None \<rparr>"

text \<open>The arguments an optimizer was built with.\<close>

definition config :: "ciaco \<Rightarrow> int \<times> int \<times> real \<times> real \<times> real \<times> real \<times> bool \<times> int \<times> real" where
  "config s =
     (num_ants s, iterations s, alpha s, beta s, evaporation_rate s, initial_pheromone s,
      return_to_depot s, num_clusters s, elitist_factor s)"

text \<open>Two indices lie in one cluster.\<close>

definition same_cluster :: "nat list list \<Rightarrow> nat \<Rightarrow> nat \<Rightarrow> bool" where
  "same_cluster cl i j = list_ex (\<lambda>c. i \<in> set c \<and> j \<in> set c) cl"

text \<open>A matrix of \<open>n\<close> rows and \<open>n\<close> columns.\<close>

definition square :: "nat \<Rightarrow> real list list \<Rightarrow> bool" where
  "square n m = (length m = n \<and> list_all (\<lambda>row. length row = n) m)"

section \<open>Truck: capacity bookkeeping\<close>

lemma add_order_orders: "assigned_orders (add_order t ord) = assigned_orders t @ [ord]"
  by (simp add: add_order_def update_capacity_def)

lemma add_order_max: "max_capacity_T (add_order t ord) = max_capacity_T t"
  by (simp add: add_order_def update_capacity_def)

lemma add_order_remaining:
  "remaining_capacity (add_order t ord) =
     max_capacity_T t - sum_list (map weight_o (assigned_orders t @ [ord]))"
  by (simp add: add_order_def update_capacity_def)

lemma foldl_add_order_orders:
  "assigned_orders (foldl add_order t ords) = assigned_orders t @ ords"
  by (induction ords arbitrary: t) (simp_all add: add_order_orders)

lemma foldl_add_order_max: "max_capacity_T (foldl add_order t ords) = max_capacity_T t"
  by (induction ords arbitrary: t) (simp_all add: add_order_max)

lemma foldl_add_order_remaining:
  "remaining_capacity t = max_capacity_T t - sum_list (map weight_o (assigned_orders t)) \<Longrightarrow>
   remaining_capacity (foldl add_order t ords) =
     max_capacity_T t - sum_list (map weight_o (assigned_orders t @ ords))"
proof (induction ords arbitrary: t)
  case Nil
  then show ?case by simp
next
  case (Cons a ords)
  have "remaining_capacity (add_order t a) =
          max_capacity_T (add_order t a) - sum_list (map weight_o (assigned_orders (add_order t a)))"
    by (simp add: add_order_remaining add_order_max add_order_orders)
  from Cons.IH [OF this] show ?case
    by (simp add: add_order_max add_order_orders)
qed

text \<open>
  C10.  A truck built by the constructor and then given any sequence of orders by
  \<open>add_order\<close> holds exactly those orders, in the order given, and its remaining capacity
  is its maximum capacity minus the sum of their weights.  Nothing bounds the sum: with
  capacity 10 and one order of weight 15 the remaining capacity is -5.
\<close>

theorem truck_remaining_capacity_invariant:
  "assigned_orders (foldl add_order (Truck_init tid loc cap) ords) = ords \<and>
   max_capacity_T (foldl add_order (Truck_init tid loc cap) ords) = cap \<and>
   remaining_capacity (foldl add_order (Truck_init tid loc cap) ords) =
     cap - sum_list (map weight_o ords) \<and>
   remaining_capacity
     (add_order (Truck_init tid loc 10)
        \<lparr> order_id = oid, weight_o = 15, pickup_o = p, dropoff_o = q \<rparr>) = - 5"
proof -
  let ?t = "Truck_init tid loc cap"
  have inv: "remaining_capacity ?t = max_capacity_T ?t - sum_list (map weight_o (assigned_orders ?t))"
    by (simp add: Truck_init_def)
  have "remaining_capacity (foldl add_order ?t ords) =
          max_capacity_T ?t - sum_list (map weight_o (assigned_orders ?t @ ords))"
    by (rule foldl_add_order_remaining [OF inv])
  then show ?thesis
    by (simp add: foldl_add_order_orders foldl_add_order_max Truck_init_def
        add_order_remaining)
qed

section \<open>The optimizer: routes\<close>

lemma draw_unvisited_mem:
  "draw_unvisited u tape = Some (c, tape') \<Longrightarrow> c \<in> set u"
  by (induction tape) (auto split: if_splits)

lemma construct_loop_order:
  "construct_loop sts u r tape = Some (r', tape') \<Longrightarrow>
   \<exists>ord. mset ord = mset u \<and> r' = r @ map (\<lambda>i. sts ! i) ord"
proof (induction sts u r tape rule: construct_loop.induct)
  case (1 sts unvisited r tape)
  show ?case
  proof (cases "unvisited = []")
    case True
    with "1.prems" show ?thesis by simp
  next
    case False
    with "1.prems" obtain c tp where d: "draw_unvisited unvisited tape = Some (c, tp)"
      and rec: "construct_loop sts (remove1 c unvisited) (r @ [sts ! c]) tp = Some (r', tape')"
      by (auto split: option.splits)
    from d have mem: "c \<in> set unvisited" by (rule draw_unvisited_mem)
    from "1.IH" [OF False d refl rec] obtain ord where
      o: "mset ord = mset (remove1 c unvisited)" "r' = (r @ [sts ! c]) @ map (\<lambda>i. sts ! i) ord"
      by blast
    have "mset (c # ord) = mset unvisited" using o(1) mem by simp
    moreover have "r' = r @ map (\<lambda>i. sts ! i) (c # ord)" using o(2) by simp
    ultimately show ?thesis by blast
  qed
qed

lemma construct_solution_visits_all:
  assumes "construct_solution s tape = Some (Inr (r, tape'))" and "stops s = Some sts"
  shows "visits_all sts (return_to_depot s) r"
proof -
  from assms obtain r0 where ne: "sts \<noteq> []"
    and cl: "construct_loop sts [1..<length sts] [sts ! 0] tape = Some (r0, tape')"
    and r: "r = (if return_to_depot s then r0 @ [sts ! 0] else r0)"
    by (auto simp: construct_solution_def split: option.splits if_splits)
  from construct_loop_order [OF cl] obtain ord where
    o: "mset ord = mset [1..<length sts]" "r0 = [sts ! 0] @ map (\<lambda>i. sts ! i) ord"
    by blast
  have len: "length ord = length sts - 1"
    using o(1) by (metis length_upt mset_eq_length)
  have "0 # [1..<length sts] = [0..<length sts]"
    using ne by (simp add: upt_conv_Cons)
  then have "mset (0 # ord) = mset [0..<length sts]"
    using o(1) by (metis mset.simps(2))
  then have "mset (map (\<lambda>i. sts ! i) (0 # ord)) = mset (map (\<lambda>i. sts ! i) [0..<length sts])"
    by (metis mset_map)
  then have m: "mset r0 = mset sts"
    using o(2) by (simp add: map_nth)
  have l0: "length r0 = length sts"
    using m by (rule mset_eq_length)
  have "r0 ! 0 = sts ! 0" using o(2) by simp
  then show ?thesis
    using m l0 r ne by (auto simp: visits_all_def nth_append)
qed


text \<open>The fields that the loops leave alone.\<close>

lemma update_pheromones_fields:
  "update_pheromones s ar ad = Inr s' \<Longrightarrow>
   stops s' = stops s \<and> best_route s' = best_route s \<and> best_distance s' = best_distance s \<and>
   return_to_depot s' = return_to_depot s \<and> num_ants s' = num_ants s \<and>
   visibility_matrix s' = visibility_matrix s \<and> pheromone_matrix s' \<noteq> None"
  by (auto simp: update_pheromones_def Let_def split: option.splits sum.splits)

lemma ants_loop_fields:
  "ants_loop k s tape ar ad = Some (Inr (s', tape', ar', ad')) \<Longrightarrow>
   stops s' = stops s \<and> return_to_depot s' = return_to_depot s \<and> num_ants s' = num_ants s \<and>
   visibility_matrix s' = visibility_matrix s \<and> pheromone_matrix s' = pheromone_matrix s"
proof (induction k arbitrary: s tape ar ad)
  case 0
  then show ?case by simp
next
  case (Suc k)
  from Suc.prems obtain r tp where
    c: "construct_solution s tape = Some (Inr (r, tp))"
    by (auto split: option.splits sum.splits)
  let ?d = "total_route_distance r (return_to_depot s)"
  let ?s = "if lt_bound ?d (best_distance s)
            then s\<lparr> best_distance := Finite ?d, best_route := Some r \<rparr> else s"
  from Suc.prems c have
    "ants_loop k ?s tp (ar @ [r]) (ad @ [?d]) = Some (Inr (s', tape', ar', ad'))"
    by (simp add: Let_def)
  from Suc.IH [OF this] show ?case by (simp split: if_splits)
qed

lemma ants_loop_best:
  "ants_loop k s tape ar ad = Some (Inr (s', tape', ar', ad')) \<Longrightarrow>
   stops s = Some sts \<Longrightarrow> best_ok sts s \<Longrightarrow>
   best_ok sts s' \<and> (0 < k \<or> best_route s \<noteq> None \<longrightarrow> best_route s' \<noteq> None)"
proof (induction k arbitrary: s tape ar ad)
  case 0
  then show ?case by simp
next
  case (Suc k)
  from Suc.prems obtain r tp where
    c: "construct_solution s tape = Some (Inr (r, tp))"
    by (auto split: option.splits sum.splits)
  let ?d = "total_route_distance r (return_to_depot s)"
  let ?s = "if lt_bound ?d (best_distance s)
            then s\<lparr> best_distance := Finite ?d, best_route := Some r \<rparr> else s"
  from Suc.prems c have
    run: "ants_loop k ?s tp (ar @ [r]) (ad @ [?d]) = Some (Inr (s', tape', ar', ad'))"
    by (simp add: Let_def)
  have v: "visits_all sts (return_to_depot s) r"
    by (rule construct_solution_visits_all [OF c Suc.prems(2)])
  have st: "stops ?s = Some sts" using Suc.prems(2) by simp
  have ok: "best_ok sts ?s" using Suc.prems(3) v by (simp add: best_ok_def)
  have some: "best_route ?s \<noteq> None"
    using Suc.prems(3) by (cases "best_distance s") (auto simp: best_ok_def split: option.splits)
  from Suc.IH [OF run st ok] some show ?case by simp
qed

lemma aco_loop_best:
  "aco_loop k s tape = Some (Inr (s', tape')) \<Longrightarrow>
   stops s = Some sts \<Longrightarrow> best_ok sts s \<Longrightarrow>
   stops s' = Some sts \<and> return_to_depot s' = return_to_depot s \<and> best_ok sts s' \<and>
   ((0 < k \<and> 0 < num_ants s) \<or> best_route s \<noteq> None \<longrightarrow> best_route s' \<noteq> None)"
proof (induction k arbitrary: s tape)
  case 0
  then show ?case by simp
next
  case (Suc k)
  from Suc.prems obtain s1 tp ar ad s2 where
    a: "ants_loop (nat (num_ants s)) s tape [] [] = Some (Inr (s1, tp, ar, ad))"
    and u: "update_pheromones s1 ar ad = Inr s2"
    and run: "aco_loop k s2 tp = Some (Inr (s', tape'))"
    by (auto split: option.splits sum.splits)
  note f1 = ants_loop_fields [OF a]
  note b1 = ants_loop_best [OF a Suc.prems(2,3)]
  note f2 = update_pheromones_fields [OF u]
  have st2: "stops s2 = Some sts" using f1 f2 Suc.prems(2) by simp
  have ok2: "best_ok sts s2"
    using b1 f1 f2 by (auto simp: best_ok_def split: option.splits)
  note ih = Suc.IH [OF run st2 ok2]
  have "0 < num_ants s \<or> best_route s \<noteq> None \<Longrightarrow> best_route s2 \<noteq> None"
    using b1 f2 by auto
  with ih f1 f2 show ?case by auto
qed


subsection \<open>Runs that finish\<close>

lemma construct_loop_in_order:
  "distinct u \<Longrightarrow>
   construct_loop sts u r (u @ tape) = Some (r @ map (\<lambda>i. sts ! i) u, tape)"
proof (induction u arbitrary: r)
  case Nil
  show ?case by (subst construct_loop.simps) simp
next
  case (Cons c u)
  then have "construct_loop sts u (r @ [sts ! c]) (u @ tape) =
               Some ((r @ [sts ! c]) @ map (\<lambda>i. sts ! i) u, tape)"
    by simp
  then show ?case by (subst construct_loop.simps) simp
qed

lemma construct_solution_in_order:
  assumes "stops s = Some sts" and "sts \<noteq> []"
    and "pheromone_matrix s \<noteq> None" and "visibility_matrix s \<noteq> None"
  shows "construct_solution s ([1..<length sts] @ tape) =
           Some (Inr (sts @ (if return_to_depot s then [sts ! 0] else []), tape))"
proof -
  have "0 # [1..<length sts] = [0..<length sts]"
    using assms(2) by (simp add: upt_conv_Cons)
  then have "map (\<lambda>i. sts ! i) (0 # [1..<length sts]) = sts"
    by (simp only: map_nth)
  then have e: "[sts ! 0] @ map (\<lambda>i. sts ! i) [1..<length sts] = sts"
    by simp
  have "construct_loop sts [1..<length sts] [sts ! 0] ([1..<length sts] @ tape) =
          Some ([sts ! 0] @ map (\<lambda>i. sts ! i) [1..<length sts], tape)"
    by (rule construct_loop_in_order) simp
  with e have "construct_loop sts [1..<length sts] [sts ! 0] ([1..<length sts] @ tape) =
          Some (sts, tape)"
    by simp
  with assms show ?thesis
    by (auto simp: construct_solution_def)
qed

lemma in_order_draws_Suc: "in_order_draws (Suc k) n = [1..<n] @ in_order_draws k n"
  by (simp add: in_order_draws_def)

lemma in_order_draws_add:
  "in_order_draws (a + b) n = in_order_draws a n @ in_order_draws b n"
  by (simp add: in_order_draws_def replicate_add)

lemma ants_loop_in_order:
  assumes "stops s = Some sts" and "sts \<noteq> []"
    and "pheromone_matrix s \<noteq> None" and "visibility_matrix s \<noteq> None"
    and "length ar = length ad" and "\<forall>r \<in> set ar. set r \<subseteq> set sts"
  shows "\<exists>s' ar' ad'.
           ants_loop k s (in_order_draws k (length sts) @ tape) ar ad =
             Some (Inr (s', tape, ar', ad')) \<and>
           length ar' = length ad' \<and> length ad' = length ad + k \<and>
           (\<forall>r \<in> set ar'. set r \<subseteq> set sts)"
  using assms
proof (induction k arbitrary: s ar ad)
  case 0
  then show ?case by (simp add: in_order_draws_def)
next
  case (Suc k)
  let ?r = "sts @ (if return_to_depot s then [sts ! 0] else [])"
  let ?d = "total_route_distance ?r (return_to_depot s)"
  let ?s = "if lt_bound ?d (best_distance s)
            then s\<lparr> best_distance := Finite ?d, best_route := Some ?r \<rparr> else s"
  have c: "construct_solution s ([1..<length sts] @ in_order_draws k (length sts) @ tape) =
             Some (Inr (?r, in_order_draws k (length sts) @ tape))"
    by (rule construct_solution_in_order [OF Suc.prems(1-4)])
  have sub: "set ?r \<subseteq> set sts" using Suc.prems(2) by auto
  have "\<exists>s' ar' ad'.
          ants_loop k ?s (in_order_draws k (length sts) @ tape) (ar @ [?r]) (ad @ [?d]) =
            Some (Inr (s', tape, ar', ad')) \<and>
          length ar' = length ad' \<and> length ad' = length (ad @ [?d]) + k \<and>
          (\<forall>r \<in> set ar'. set r \<subseteq> set sts)"
    by (rule Suc.IH) (use Suc.prems sub in \<open>auto split: if_splits\<close>)
  then show ?case
    using c by (simp add: in_order_draws_Suc Let_def)
qed

lemma index_of_mem: "x \<in> set xs \<Longrightarrow> index_of xs x \<noteq> None"
  by (induction xs) auto

lemma deposit_succeeds:
  "set r \<subseteq> set sts \<Longrightarrow> \<exists>pm'. deposit sts c r pm = Inr pm'"
proof (induction sts c r pm rule: deposit.induct)
  case (1 sts contribution a b rest pm)
  from "1.prems" obtain i j where ij: "index_of sts a = Some i" "index_of sts b = Some j"
    using index_of_mem [of a sts] index_of_mem [of b sts] by auto
  from "1.IH" [OF ij] "1.prems" show ?case
    using ij by simp
qed simp_all

lemma deposit_all_succeeds:
  "\<forall>r \<in> set (map fst rds). set r \<subseteq> set sts \<Longrightarrow> \<exists>pm'. deposit_all sts rds pm = Inr pm'"
proof (induction rds arbitrary: pm)
  case Nil
  then show ?case by simp
next
  case (Cons rd rds)
  obtain r d where rd: "rd = (r, d)" by (cases rd)
  with Cons.prems have "set r \<subseteq> set sts" by simp
  from deposit_succeeds [OF this] obtain pm1 where
    p: "deposit sts (1 / (d + 1 / 10000000000)) r pm = Inr pm1"
    by blast
  from Cons.IH [of pm1] Cons.prems obtain pm2 where "deposit_all sts rds pm1 = Inr pm2"
    by auto
  with p rd show ?case by simp
qed

lemma argmin_acc_bound: "bi < i \<Longrightarrow> argmin_acc bi bv i xs < i + length xs"
proof (induction xs arbitrary: bi bv i)
  case Nil
  then show ?case by simp
next
  case (Cons x xs)
  have "argmin_acc i x (Suc i) xs < Suc i + length xs"
    by (rule Cons.IH) simp
  moreover have "argmin_acc bi bv (Suc i) xs < Suc i + length xs"
    by (rule Cons.IH) (use Cons.prems in simp)
  ultimately show ?case by simp
qed

lemma argmin_less: "argmin xs = Some i \<Longrightarrow> i < length xs"
  using argmin_acc_bound [of 0 1]
  by (auto simp: argmin_def split: list.splits)

lemma argmin_nonempty: "xs \<noteq> [] \<Longrightarrow> argmin xs \<noteq> None"
  by (auto simp: argmin_def split: list.splits)

lemma update_pheromones_succeeds:
  assumes "stops s = Some sts" and "pheromone_matrix s \<noteq> None" and "ad \<noteq> []"
    and "length ar = length ad" and "\<forall>r \<in> set ar. set r \<subseteq> set sts"
  shows "\<exists>s'. update_pheromones s ar ad = Inr s'"
proof -
  from assms(2) obtain pm where pm: "pheromone_matrix s = Some pm" by auto
  from assms(3) obtain b where b: "argmin ad = Some b"
    using argmin_nonempty by auto
  then have "b < length ar" using argmin_less assms(4) by simp
  then have best: "set (ar ! b) \<subseteq> set sts" using assms(5) by simp
  have "\<forall>r \<in> set (map fst (zip ar ad)). set r \<subseteq> set sts"
    using assms(4,5) by simp
  from deposit_all_succeeds [OF this] obtain pm1 where
    d1: "deposit_all sts (zip ar ad) (map (map (\<lambda>x. x * (1 - evaporation_rate s))) pm) = Inr pm1"
    by blast
  from deposit_succeeds [OF best] obtain pm2 where
    "deposit sts (elitist_factor s / (ad ! b + 1 / 10000000000)) (ar ! b) pm1 = Inr pm2"
    by blast
  with d1 b pm assms(1) show ?thesis
    by (simp add: update_pheromones_def)
qed

lemma aco_loop_in_order:
  assumes "stops s = Some sts" and "sts \<noteq> []"
    and "pheromone_matrix s \<noteq> None" and "visibility_matrix s \<noteq> None"
    and "0 < num_ants s"
  shows "\<exists>s'. aco_loop k s (in_order_draws (k * nat (num_ants s)) (length sts) @ tape) =
                 Some (Inr (s', tape))"
  using assms
proof (induction k arbitrary: s)
  case 0
  then show ?case by (simp add: in_order_draws_def)
next
  case (Suc k)
  let ?a = "nat (num_ants s)"
  let ?rest = "in_order_draws (k * ?a) (length sts) @ tape"
  have tape: "in_order_draws (Suc k * ?a) (length sts) @ tape =
                in_order_draws ?a (length sts) @ ?rest"
    by (simp add: in_order_draws_add)
  from ants_loop_in_order [OF Suc.prems(1-4), of "[]" "[]" ?a ?rest]
  obtain s1 ar ad where
    a: "ants_loop ?a s (in_order_draws ?a (length sts) @ ?rest) [] [] =
          Some (Inr (s1, ?rest, ar, ad))"
    and l: "length ar = length ad" "length ad = ?a" "\<forall>r \<in> set ar. set r \<subseteq> set sts"
    by auto
  note f1 = ants_loop_fields [OF a]
  have ne: "ad \<noteq> []" using l(2) Suc.prems(5) by auto
  from update_pheromones_succeeds [of s1 sts ad ar] f1 Suc.prems l ne
  obtain s2 where u: "update_pheromones s1 ar ad = Inr s2"
    by auto
  note f2 = update_pheromones_fields [OF u]
  have "\<exists>s'. aco_loop k s2 (in_order_draws (k * nat (num_ants s2)) (length sts) @ tape) =
               Some (Inr (s', tape))"
    by (rule Suc.IH) (use f1 f2 Suc.prems in auto)
  then obtain s' where "aco_loop k s2 ?rest = Some (Inr (s', tape))"
    using f1 f2 by auto
  with a u show ?case
    by (simp only: tape aco_loop.simps) simp
qed

section \<open>The optimizer: clustering\<close>

lemma mset_concat_update:
  "i < length cl \<Longrightarrow> mset (concat (cl[i := cl ! i @ [x]])) = mset (concat cl) + {#x#}"
proof (induction cl arbitrary: i)
  case Nil
  then show ?case by simp
next
  case (Cons c cl)
  then show ?case by (cases i) simp_all
qed

lemma assign_points_partition:
  "assign_points points centroids js cl = Inr cl' \<Longrightarrow> length centroids \<le> length cl \<Longrightarrow>
   length cl' = length cl \<and> mset (concat cl') = mset (concat cl) + mset js"
proof (induction js arbitrary: cl)
  case Nil
  then show ?case by simp
next
  case (Cons j js)
  from Cons.prems(1) obtain idx where
    a: "argmin (map (euclidean_distance (points ! j)) centroids) = Some idx"
    and run: "assign_points points centroids js (cl[idx := cl ! idx @ [j]]) = Inr cl'"
    by (auto split: option.splits)
  from argmin_less [OF a] Cons.prems(2) have idx: "idx < length cl" by simp
  from Cons.IH [OF run] Cons.prems(2) have
    "length cl' = length cl" "mset (concat cl') = mset (concat (cl[idx := cl ! idx @ [j]])) + mset js"
    by simp_all
  then show ?case by (simp add: mset_concat_update [OF idx])
qed

lemma assign_points_succeeds:
  "centroids \<noteq> [] \<Longrightarrow> \<exists>cl'. assign_points points centroids js cl = Inr cl'"
proof (induction js arbitrary: cl)
  case Nil
  then show ?case by simp
next
  case (Cons j js)
  then obtain idx where "argmin (map (euclidean_distance (points ! j)) centroids) = Some idx"
    using argmin_nonempty [of "map (euclidean_distance (points ! j)) centroids"] by auto
  with Cons show ?case by simp
qed

lemma kmeans_loop_partition:
  "kmeans_loop m points k centroids cl = Inr cl' \<Longrightarrow> length centroids \<le> k \<Longrightarrow>
   0 < m \<or> mset (concat cl) = mset [0..<length points] \<Longrightarrow>
   mset (concat cl') = mset [0..<length points]"
proof (induction m arbitrary: centroids cl)
  case 0
  then show ?case by simp
next
  case (Suc m)
  from Suc.prems(1) obtain cl1 where
    a: "assign_points points centroids [0..<length points] (replicate k []) = Inr cl1"
    by (auto split: sum.splits)
  from assign_points_partition [OF a] Suc.prems(2) have
    p: "length cl1 = k" "mset (concat cl1) = mset [0..<length points]"
    by simp_all
  let ?new = "map (mean_point points) (filter (\<lambda>c. c \<noteq> []) cl1)"
  show ?case
  proof (cases "length ?new = length centroids \<and> allclose centroids ?new")
    case True
    with Suc.prems(1) a have "cl' = cl1" by (simp add: Let_def)
    with p show ?thesis by simp
  next
    case False
    with Suc.prems(1) a have run: "kmeans_loop m points k ?new cl1 = Inr cl'"
      by (auto simp: Let_def split: if_splits)
    have "length ?new \<le> k" using p(1) by (metis length_filter_le length_map)
    from Suc.IH [OF run this] p(2) show ?thesis by simp
  qed
qed

lemma concat_filter_nonempty: "concat (filter (\<lambda>c. c \<noteq> []) cl) = concat cl"
  by (induction cl) auto

lemma kmeans_loop_succeeds:
  "centroids \<noteq> [] \<Longrightarrow> length centroids \<le> k \<Longrightarrow> points \<noteq> [] \<Longrightarrow>
   \<exists>cl'. kmeans_loop m points k centroids cl = Inr cl'"
proof (induction m arbitrary: centroids cl)
  case 0
  then show ?case by simp
next
  case (Suc m)
  from assign_points_succeeds [OF Suc.prems(1)] obtain cl1 where
    a: "assign_points points centroids [0..<length points] (replicate k []) = Inr cl1"
    by blast
  from assign_points_partition [OF a] Suc.prems(2) have
    p: "length cl1 = k" "mset (concat cl1) = mset [0..<length points]"
    by simp_all
  let ?new = "map (mean_point points) (filter (\<lambda>c. c \<noteq> []) cl1)"
  have "concat cl1 \<noteq> []" using p(2) Suc.prems(3) by (metis length_0_conv length_upt mset_eq_length diff_zero)
  then have "filter (\<lambda>c. c \<noteq> []) cl1 \<noteq> []"
    by (metis concat_filter_nonempty concat.simps(1))
  then have ne: "?new \<noteq> []" by simp
  have le: "length ?new \<le> k" using p(1) by (metis length_filter_le length_map)
  from Suc.IH [OF ne le Suc.prems(3)] obtain cl2 where
    "kmeans_loop m points k ?new cl1 = Inr cl2"
    by blast
  with a show ?case by (simp add: Let_def)
qed

lemma cluster_stops_partition:
  assumes "cluster_stops s rs = Some (Inr (cl, rs'))" and "stops s = Some sts"
  shows "mset (concat cl) = mset [0..<length sts]"
proof (cases "int (length sts) \<le> num_clusters s")
  case True
  with assms have "cl = map (\<lambda>i. [i]) [0..<length sts]"
    by (simp add: cluster_stops_def)
  moreover have "concat (map (\<lambda>i. [i]) xs) = xs" for xs :: "nat list"
    by (induction xs) simp_all
  ultimately show ?thesis by simp
next
  case False
  with assms obtain smp rs1 where
    r: "random_sample rs (length sts) (num_clusters s) = Some (Inr (smp, rs1))"
    and k: "kmeans_loop 100 sts (nat (num_clusters s)) (map (\<lambda>i. sts ! i) smp) [] = Inr cl"
    by (auto simp: cluster_stops_def split: option.splits sum.splits)
  from r have "length smp = nat (num_clusters s)"
    by (auto simp: random_sample_def split: if_splits list.splits)
  then have "length (map (\<lambda>i. sts ! i) smp) \<le> nat (num_clusters s)" by simp
  from kmeans_loop_partition [OF k this] show ?thesis by simp
qed

lemma cluster_stops_succeeds:
  assumes "stops s = Some sts" and "sts \<noteq> []" and "0 < num_clusters s"
    and "sample_ready s rs (length sts)"
  shows "\<exists>cl. cluster_stops s rs = Some (Inr (cl, after_sample s rs (length sts)))"
proof (cases "int (length sts) \<le> num_clusters s")
  case True
  with assms show ?thesis by (simp add: cluster_stops_def after_sample_def)
next
  case False
  with assms(4) obtain smp rest where
    sr: "sample_results rs = smp # rest" "length smp = nat (num_clusters s)" "distinct smp"
      "list_all (\<lambda>i. i < length sts) smp"
    by (auto simp: sample_ready_def split: list.splits)
  with False assms(3) have
    r: "random_sample rs (length sts) (num_clusters s) =
          Some (Inr (smp, rs\<lparr> sample_results := rest \<rparr>))"
    by (simp add: random_sample_def)
  have "map (\<lambda>i. sts ! i) smp \<noteq> []" using sr(2) assms(3) by auto
  moreover have "length (map (\<lambda>i. sts ! i) smp) \<le> nat (num_clusters s)" using sr(2) by simp
  ultimately obtain cl where
    "kmeans_loop 100 sts (nat (num_clusters s)) (map (\<lambda>i. sts ! i) smp) [] = Inr cl"
    using kmeans_loop_succeeds [OF _ _ assms(2)] by blast
  with r False assms(1) sr(1) show ?thesis
    by (simp add: cluster_stops_def after_sample_def)
qed

section \<open>The optimizer: set-up\<close>

lemma cluster_stops_choices:
  "cluster_stops s rs = Some (Inr (cl, rs')) \<Longrightarrow> choices_results rs' = choices_results rs"
  by (auto simp: cluster_stops_def random_sample_def Let_def
      split: option.splits sum.splits if_splits list.splits)

lemma initialize_pheromones_fields:
  "initialize_pheromones s = Inr s' \<Longrightarrow>
   s' = s\<lparr> pheromone_matrix := pheromone_matrix s' \<rparr> \<and> pheromone_matrix s' \<noteq> None"
  by (auto simp: initialize_pheromones_def Let_def split: option.splits prod.splits)

lemma optimize_setup_fields:
  assumes "optimize_setup s rs sts = Some (Inr (s1, rs1))"
  shows "stops s1 = Some sts \<and> best_route s1 = best_route s \<and>
         best_distance s1 = best_distance s \<and> return_to_depot s1 = return_to_depot s \<and>
         num_ants s1 = num_ants s \<and> iterations s1 = iterations s \<and>
         num_clusters s1 = num_clusters s \<and> initial_pheromone s1 = initial_pheromone s \<and>
         pheromone_matrix s1 \<noteq> None \<and> visibility_matrix s1 \<noteq> None \<and>
         choices_results rs1 = choices_results rs"
proof -
  let ?s1 = "s\<lparr> stops := Some sts, distance_matrix := Some (fill_distances sts),
                 visibility_matrix := Some (calculate_visibility_matrix sts) \<rparr>"
  from assms obtain cl where c: "cluster_stops ?s1 rs = Some (Inr (cl, rs1))"
    and i: "initialize_pheromones (?s1\<lparr> clusters := Some cl \<rparr>) = Inr s1"
    by (auto simp: optimize_setup_def Let_def split: option.splits sum.splits)
  from initialize_pheromones_fields [OF i] have
    e: "s1 = ?s1\<lparr> clusters := Some cl, pheromone_matrix := pheromone_matrix s1 \<rparr>"
    and ne: "pheromone_matrix s1 \<noteq> None"
    by simp_all
  have "stops s1 = Some sts" by (subst e) simp
  moreover have "best_route s1 = best_route s" by (subst e) simp
  moreover have "best_distance s1 = best_distance s" by (subst e) simp
  moreover have "return_to_depot s1 = return_to_depot s" by (subst e) simp
  moreover have "num_ants s1 = num_ants s" by (subst e) simp
  moreover have "iterations s1 = iterations s" by (subst e) simp
  moreover have "num_clusters s1 = num_clusters s" by (subst e) simp
  moreover have "initial_pheromone s1 = initial_pheromone s" by (subst e) simp
  moreover have "visibility_matrix s1 \<noteq> None" by (subst e) simp
  ultimately show ?thesis using ne cluster_stops_choices [OF c] by simp
qed

lemma optimize_setup_succeeds:
  assumes "sts \<noteq> []" and "0 < num_clusters s" and "sample_ready s rs (length sts)"
  shows "\<exists>s1. optimize_setup s rs sts = Some (Inr (s1, after_sample s rs (length sts)))"
proof -
  let ?s1 = "s\<lparr> stops := Some sts, distance_matrix := Some (fill_distances sts),
                 visibility_matrix := Some (calculate_visibility_matrix sts) \<rparr>"
  have "\<exists>cl. cluster_stops ?s1 rs = Some (Inr (cl, after_sample ?s1 rs (length sts)))"
    by (rule cluster_stops_succeeds) (use assms in \<open>auto simp: sample_ready_def split: list.splits\<close>)
  then obtain cl where
    c: "cluster_stops ?s1 rs = Some (Inr (cl, after_sample s rs (length sts)))"
    by (auto simp: after_sample_def)
  have "\<exists>s2. initialize_pheromones (?s1\<lparr> clusters := Some cl \<rparr>) = Inr s2"
    by (simp add: initialize_pheromones_def Let_def)
  with c show ?thesis
    by (auto simp: optimize_setup_def Let_def)
qed

section \<open>The optimizer: optimize\_route\<close>

lemma optimize_route_best:
  assumes "2 < length sts" and "best_ok sts s"
    and "optimize_route s rs sts = Some (Inr (res, s', rs'))"
  shows "res = best_route s' \<and> best_ok sts s' \<and> return_to_depot s' = return_to_depot s \<and>
         ((0 < iterations s \<and> 0 < num_ants s) \<or> best_route s \<noteq> None \<longrightarrow> res \<noteq> None)"
proof -
  from assms obtain s1 rs1 tape where
    su: "optimize_setup s rs sts = Some (Inr (s1, rs1))"
    and lo: "aco_loop (nat (iterations s1)) s1 (choices_results rs1) = Some (Inr (s', tape))"
    and res: "res = best_route s'"
    by (auto simp: optimize_route_def split: option.splits sum.splits if_splits)
  note f = optimize_setup_fields [OF su]
  have ok1: "best_ok sts s1" using assms(2) f by (auto simp: best_ok_def split: option.splits)
  from aco_loop_best [OF lo _ ok1] f res show ?thesis by auto
qed

lemma optimize_route_returns:
  assumes "2 < length sts" and "0 < num_ants s" and "0 < num_clusters s"
    and "sample_ready s rs (length sts)"
    and "choices_results rs =
           in_order_draws (nat (iterations s) * nat (num_ants s)) (length sts) @ tape"
  shows "\<exists>res s'. optimize_route s rs sts =
           Some (Inr (res, s', (after_sample s rs (length sts))\<lparr> choices_results := tape \<rparr>))"
proof -
  have ne: "sts \<noteq> []" using assms(1) by auto
  from optimize_setup_succeeds [OF ne assms(3,4)] obtain s1 where
    su: "optimize_setup s rs sts = Some (Inr (s1, after_sample s rs (length sts)))"
    by blast
  note f = optimize_setup_fields [OF su]
  have "\<exists>s'. aco_loop (nat (iterations s1)) s1
                (in_order_draws (nat (iterations s1) * nat (num_ants s1)) (length sts) @ tape) =
              Some (Inr (s', tape))"
    by (rule aco_loop_in_order) (use f ne assms(2) in simp_all)
  then obtain s' where
    "aco_loop (nat (iterations s1)) s1 (choices_results (after_sample s rs (length sts))) =
       Some (Inr (s', tape))"
    using f assms(5) by auto
  with su assms(1) show ?thesis
    by (auto simp: optimize_route_def)
qed

section \<open>The optimizer: runs whose ants visit the stops in order\<close>

lemma update_pheromones_config: "update_pheromones s ar ad = Inr s' \<Longrightarrow> config s' = config s"
  by (auto simp: update_pheromones_def config_def Let_def split: option.splits sum.splits)

lemma ants_loop_config:
  "ants_loop k s tape ar ad = Some (Inr (s', tape', ar', ad')) \<Longrightarrow> config s' = config s"
proof (induction k arbitrary: s tape ar ad)
  case 0
  then show ?case by simp
next
  case (Suc k)
  from Suc.prems obtain r tp where
    c: "construct_solution s tape = Some (Inr (r, tp))"
    by (auto split: option.splits sum.splits)
  let ?d = "total_route_distance r (return_to_depot s)"
  let ?s = "if lt_bound ?d (best_distance s)
            then s\<lparr> best_distance := Finite ?d, best_route := Some r \<rparr> else s"
  from Suc.prems c have
    "ants_loop k ?s tp (ar @ [r]) (ad @ [?d]) = Some (Inr (s', tape', ar', ad'))"
    by (simp add: Let_def)
  from Suc.IH [OF this] show ?case by (simp add: config_def split: if_splits)
qed

lemma aco_loop_config:
  "aco_loop k s tape = Some (Inr (s', tape')) \<Longrightarrow> config s' = config s"
proof (induction k arbitrary: s tape)
  case 0
  then show ?case by simp
next
  case (Suc k)
  from Suc.prems obtain s1 tp ar ad s2 where
    a: "ants_loop (nat (num_ants s)) s tape [] [] = Some (Inr (s1, tp, ar, ad))"
    and u: "update_pheromones s1 ar ad = Inr s2"
    and run: "aco_loop k s2 tp = Some (Inr (s', tape'))"
    by (auto split: option.splits sum.splits)
  from Suc.IH [OF run] ants_loop_config [OF a] update_pheromones_config [OF u]
  show ?case by simp
qed

lemma optimize_setup_config:
  assumes "optimize_setup s rs sts = Some (Inr (s1, rs1))"
  shows "config s1 = config s"
proof -
  let ?s1 = "s\<lparr> stops := Some sts, distance_matrix := Some (fill_distances sts),
                 visibility_matrix := Some (calculate_visibility_matrix sts) \<rparr>"
  from assms obtain cl where
    i: "initialize_pheromones (?s1\<lparr> clusters := Some cl \<rparr>) = Inr s1"
    by (auto simp: optimize_setup_def Let_def split: option.splits sum.splits)
  from initialize_pheromones_fields [OF i] have
    e: "s1 = ?s1\<lparr> clusters := Some cl, pheromone_matrix := pheromone_matrix s1 \<rparr>"
    by simp
  show ?thesis by (subst e) (simp add: config_def)
qed

lemma optimize_route_config:
  assumes "optimize_route s rs sts = Some (Inr (res, s', rs'))"
  shows "config s' = config s"
proof (cases "length sts \<le> 2")
  case True
  with assms show ?thesis by (auto simp: optimize_route_def split: if_splits)
next
  case False
  with assms obtain s1 rs1 tape where
    su: "optimize_setup s rs sts = Some (Inr (s1, rs1))"
    and lo: "aco_loop (nat (iterations s1)) s1 (choices_results rs1) = Some (Inr (s', tape))"
    by (auto simp: optimize_route_def split: option.splits sum.splits if_splits)
  from optimize_setup_config [OF su] aco_loop_config [OF lo] show ?thesis by simp
qed


lemma CIACO_init_default: "CIACO_init 10 50 1 2 (1 / 10) 1 True 3 2 = Inr CIACO_default"
  by (simp add: CIACO_init_def CIACO_default_def)

lemma CIACO_init_fresh:
  "CIACO_init ants iters a b evap init_ph to_depot k elitist = Inr s \<Longrightarrow>
   0 < num_ants s \<and> 0 < iterations s \<and> 0 < num_clusters s \<and> 0 < initial_pheromone s \<and>
   return_to_depot s = to_depot \<and> best_route s = None \<and> best_distance s = Infinity"
  by (auto simp: CIACO_init_def split: if_splits)

lemma ants_loop_in_order_best:
  assumes "stops s = Some sts" and "sts \<noteq> []"
    and "pheromone_matrix s \<noteq> None" and "visibility_matrix s \<noteq> None"
    and "ants_loop k s (in_order_draws k (length sts) @ tape) ar ad =
           Some (Inr (s', tape', ar', ad'))"
    and "r = in_order_route sts (return_to_depot s)"
    and "d = total_route_distance r (return_to_depot s)"
  shows "best_route s' = (if 0 < k \<and> lt_bound d (best_distance s) then Some r else best_route s)
       \<and> best_distance s' =
           (if 0 < k \<and> lt_bound d (best_distance s) then Finite d else best_distance s)"
  using assms
proof (induction k arbitrary: s ar ad)
  case 0
  then show ?case by (simp add: in_order_draws_def)
next
  case (Suc k)
  let ?s = "if lt_bound d (best_distance s)
            then s\<lparr> best_distance := Finite d, best_route := Some r \<rparr> else s"
  have c: "construct_solution s ([1..<length sts] @ in_order_draws k (length sts) @ tape) =
             Some (Inr (r, in_order_draws k (length sts) @ tape))"
    using construct_solution_in_order [OF Suc.prems(1-4)] Suc.prems(6)
    by (simp add: in_order_route_def)
  have d: "total_route_distance r (return_to_depot s) = d"
    using Suc.prems(7) by simp
  from c Suc.prems(5) have run:
    "ants_loop k ?s (in_order_draws k (length sts) @ tape) (ar @ [r]) (ad @ [d]) =
       Some (Inr (s', tape', ar', ad'))"
    by (simp add: in_order_draws_Suc Let_def d split del: if_split cong: if_cong)
  have "best_route s' = (if 0 < k \<and> lt_bound d (best_distance ?s) then Some r else best_route ?s)
      \<and> best_distance s' =
          (if 0 < k \<and> lt_bound d (best_distance ?s) then Finite d else best_distance ?s)"
    by (rule Suc.IH [OF _ _ _ _ run]) (use Suc.prems in \<open>auto split: if_splits\<close>)
  then show ?case by (auto split: if_splits)
qed

lemma aco_loop_in_order_best:
  assumes "stops s = Some sts" and "sts \<noteq> []"
    and "pheromone_matrix s \<noteq> None" and "visibility_matrix s \<noteq> None"
    and "aco_loop k s (in_order_draws (k * nat (num_ants s)) (length sts) @ tape) =
           Some (Inr (s', tape'))"
    and "r = in_order_route sts (return_to_depot s)"
    and "d = total_route_distance r (return_to_depot s)"
    and "0 < num_ants s"
  shows "best_route s' = (if 0 < k \<and> lt_bound d (best_distance s) then Some r else best_route s)
       \<and> best_distance s' =
           (if 0 < k \<and> lt_bound d (best_distance s) then Finite d else best_distance s)"
  using assms
proof (induction k arbitrary: s)
  case 0
  then show ?case by (simp add: in_order_draws_def)
next
  case (Suc k)
  let ?a = "nat (num_ants s)"
  let ?rest = "in_order_draws (k * ?a) (length sts) @ tape"
  have tape: "in_order_draws (Suc k * ?a) (length sts) @ tape =
                in_order_draws ?a (length sts) @ ?rest"
    by (simp add: in_order_draws_add)
  from ants_loop_in_order [OF Suc.prems(1-4), of "[]" "[]" ?a ?rest]
  obtain s1 ar ad where
    a: "ants_loop ?a s (in_order_draws ?a (length sts) @ ?rest) [] [] =
          Some (Inr (s1, ?rest, ar, ad))"
    by auto
  note f1 = ants_loop_fields [OF a]
  note b1 = ants_loop_in_order_best [OF Suc.prems(1-4) a Suc.prems(6,7)]
  from Suc.prems(5) a obtain s2 where u: "update_pheromones s1 ar ad = Inr s2"
    and run: "aco_loop k s2 ?rest = Some (Inr (s', tape'))"
    by (simp only: tape aco_loop.simps) (auto split: sum.splits)
  note f2 = update_pheromones_fields [OF u]
  have "best_route s' = (if 0 < k \<and> lt_bound d (best_distance s2) then Some r else best_route s2)
      \<and> best_distance s' =
          (if 0 < k \<and> lt_bound d (best_distance s2) then Finite d else best_distance s2)"
    by (rule Suc.IH) (use f1 f2 Suc.prems run in auto)
  moreover have "best_route s2 =
                   (if lt_bound d (best_distance s) then Some r else best_route s)"
    and "best_distance s2 =
           (if lt_bound d (best_distance s) then Finite d else best_distance s)"
    using b1 f2 Suc.prems(8) by simp_all
  ultimately show ?case
    by (cases "lt_bound d (best_distance s)") simp_all
qed

lemma optimize_route_in_order:
  assumes "2 < length sts" and "0 < num_ants s" and "0 < num_clusters s"
    and "sample_ready s rs (length sts)"
    and "choices_results rs =
           in_order_draws (nat (iterations s) * nat (num_ants s)) (length sts) @ tape"
    and "r = in_order_route sts (return_to_depot s)"
    and "d = total_route_distance r (return_to_depot s)"
  shows "\<exists>s'. optimize_route s rs sts =
           Some (Inr (if 0 < iterations s \<and> lt_bound d (best_distance s)
                      then Some r else best_route s,
                      s', (after_sample s rs (length sts))\<lparr> choices_results := tape \<rparr>)) \<and>
           best_route s' = (if 0 < iterations s \<and> lt_bound d (best_distance s)
                            then Some r else best_route s) \<and>
           best_distance s' = (if 0 < iterations s \<and> lt_bound d (best_distance s)
                               then Finite d else best_distance s) \<and>
           config s' = config s"
proof -
  have ne: "sts \<noteq> []" using assms(1) by auto
  from optimize_setup_succeeds [OF ne assms(3,4)] obtain s1 where
    su: "optimize_setup s rs sts = Some (Inr (s1, after_sample s rs (length sts)))"
    by blast
  note f = optimize_setup_fields [OF su]
  have "\<exists>s'. aco_loop (nat (iterations s1)) s1
                (in_order_draws (nat (iterations s1) * nat (num_ants s1)) (length sts) @ tape) =
              Some (Inr (s', tape))"
    by (rule aco_loop_in_order) (use f ne assms(2) in simp_all)
  then obtain s' where
    lo: "aco_loop (nat (iterations s1)) s1
           (in_order_draws (nat (iterations s1) * nat (num_ants s1)) (length sts) @ tape) =
         Some (Inr (s', tape))"
    by blast
  have b: "best_route s' =
             (if 0 < nat (iterations s1) \<and> lt_bound d (best_distance s1)
              then Some r else best_route s1) \<and>
           best_distance s' =
             (if 0 < nat (iterations s1) \<and> lt_bound d (best_distance s1)
              then Finite d else best_distance s1)"
    by (rule aco_loop_in_order_best [OF _ ne _ _ lo]) (use f assms in simp_all)
  have "optimize_route s rs sts =
          Some (Inr (best_route s', s',
                     (after_sample s rs (length sts))\<lparr> choices_results := tape \<rparr>))"
    using su lo f assms(1,5) ne by (simp add: optimize_route_def)
  moreover have "config s' = config s"
    using optimize_setup_config [OF su] aco_loop_config [OF lo] by simp
  ultimately show ?thesis
    using b f assms(1) by (auto simp: config_def)
qed

section \<open>The optimizer: the returned route\<close>

text \<open>
  C1.  Let the optimizer be fresh from the constructor, and let the stops be pairwise
  distinct and more than two.  When \<open>optimize_route\<close> returns, whatever the random draws
  were, it returns a route (not \<open>None\<close>) whose first \<open>length sts\<close> entries are a
  rearrangement of the stops without repetition, which starts at the depot, the stop at
  index 0, and which continues with the depot, once, exactly when the optimizer was built
  with \<open>return_to_depot\<close>.  That the call returns for suitable draws is lemma
  \<open>optimize_route_returns\<close>.
\<close>

theorem optimize_route_permutation:
  assumes "CIACO_init ants iters a b evap init_ph to_depot k elitist = Inr s"
    and "distinct sts" and "2 < length sts"
    and "optimize_route s rs sts = Some (Inr (res, s', rs'))"
  shows "\<exists>r. res = Some r \<and> visits_all sts to_depot r \<and> distinct (take (length sts) r)"
proof -
  note fr = CIACO_init_fresh [OF assms(1)]
  have ok: "best_ok sts s" using fr by (simp add: best_ok_def)
  from optimize_route_best [OF assms(3) ok assms(4)] fr
  obtain r where r: "res = Some r" "visits_all sts to_depot r"
    by (auto simp: best_ok_def split: option.splits)
  from r(2) have "mset (take (length sts) r) = mset sts"
    by (simp add: visits_all_def)
  with assms(2) have "distinct (take (length sts) r)"
    by (metis mset_eq_imp_distinct_iff)
  with r show ?thesis by simp
qed

theorem optimize_route_permutation_witness:
  "CIACO_init 10 50 1 2 (1 / 10) 1 True 3 2 = Inr CIACO_default \<and>
   distinct [(0, 0), (1, 0), (2, 0 :: real) :: point] \<and>
   2 < length [(0, 0), (1, 0), (2, 0 :: real) :: point] \<and>
   (\<exists>s' rs'. optimize_route CIACO_default
                \<lparr> sample_results = [], choices_results = in_order_draws 500 3 \<rparr>
                [(0, 0), (1, 0), (2, 0)] =
              Some (Inr (Some [(0, 0), (1, 0), (2, 0), (0, 0)], s', rs'))) \<and>
   visits_all [(0, 0), (1, 0), (2, 0)] True [(0, 0), (1, 0), (2, 0), (0, 0)] \<and>
   distinct (take 3 [(0, 0), (1, 0), (2, 0), (0, 0 :: real) :: point])"
proof -
  let ?sts = "[(0, 0), (1, 0), (2, 0)] :: point list"
  let ?rs = "\<lparr> sample_results = [], choices_results = in_order_draws 500 3 \<rparr>"
  have d: "distinct ?sts" and l: "2 < length ?sts" by simp_all
  have "\<exists>s'. optimize_route CIACO_default ?rs ?sts =
          Some (Inr (if 0 < iterations CIACO_default \<and>
                        lt_bound (total_route_distance
                                    (in_order_route ?sts (return_to_depot CIACO_default))
                                    (return_to_depot CIACO_default))
                          (best_distance CIACO_default)
                     then Some (in_order_route ?sts (return_to_depot CIACO_default))
                     else best_route CIACO_default,
                     s', (after_sample CIACO_default ?rs (length ?sts))\<lparr> choices_results := [] \<rparr>)) \<and>
          best_route s' = (if 0 < iterations CIACO_default \<and>
                        lt_bound (total_route_distance
                                    (in_order_route ?sts (return_to_depot CIACO_default))
                                    (return_to_depot CIACO_default))
                          (best_distance CIACO_default)
                     then Some (in_order_route ?sts (return_to_depot CIACO_default))
                     else best_route CIACO_default) \<and>
          best_distance s' = (if 0 < iterations CIACO_default \<and>
                        lt_bound (total_route_distance
                                    (in_order_route ?sts (return_to_depot CIACO_default))
                                    (return_to_depot CIACO_default))
                          (best_distance CIACO_default)
                     then Finite (total_route_distance
                                    (in_order_route ?sts (return_to_depot CIACO_default))
                                    (return_to_depot CIACO_default))
                     else best_distance CIACO_default) \<and>
          config s' = config CIACO_default"
    by (rule optimize_route_in_order [OF l])
       (simp_all add: CIACO_default_def sample_ready_def numeral_3_eq_3)
  then obtain s' rs' where
    run: "optimize_route CIACO_default ?rs ?sts =
            Some (Inr (Some [(0, 0), (1, 0), (2, 0), (0, 0)], s', rs'))"
    by (auto simp: CIACO_default_def in_order_route_def)
  from optimize_route_permutation [OF CIACO_init_default d l run]
  have "visits_all ?sts True [(0, 0), (1, 0), (2, 0), (0, 0)] \<and>
        distinct (take (length ?sts) [(0, 0), (1, 0), (2, 0), (0, 0 :: real) :: point])"
    by simp
  with run show ?thesis
    by (simp add: CIACO_init_default)
qed

section \<open>The optimizer: no exception after the first check\<close>

lemma visits_all_subset:
  assumes "visits_all sts to_depot r" and "sts \<noteq> []"
  shows "set r \<subseteq> set sts"
proof -
  from assms(1) have "set (take (length sts) r) = set sts"
    by (metis visits_all_def mset_eq_setD)
  moreover from assms have "set (drop (length sts) r) \<subseteq> set sts"
    by (auto simp: visits_all_def)
  moreover have "set r = set (take (length sts) r) \<union> set (drop (length sts) r)"
    by (metis append_take_drop_id set_append)
  ultimately show ?thesis by simp
qed

lemma construct_solution_no_error:
  assumes "stops s = Some sts" and "sts \<noteq> []" and "pheromone_matrix s \<noteq> None"
    and "visibility_matrix s \<noteq> None"
  shows "construct_solution s tape \<noteq> Some (Inl e)"
proof -
  from assms(3,4) obtain pm vm where
    m: "pheromone_matrix s = Some pm" "visibility_matrix s = Some vm"
    by auto
  show ?thesis
  proof (cases "construct_loop sts [1..<length sts] [sts ! 0] tape")
    case None
    with m assms(1,2) show ?thesis by (simp add: construct_solution_def)
  next
    case (Some x)
    with m assms(1,2) show ?thesis by (cases x) (simp add: construct_solution_def)
  qed
qed

lemma ants_loop_routes:
  "ants_loop k s tape ar ad = Some (Inr (s', tape', ar', ad')) \<Longrightarrow>
   stops s = Some sts \<Longrightarrow> sts \<noteq> [] \<Longrightarrow> length ar = length ad \<Longrightarrow>
   \<forall>r \<in> set ar. set r \<subseteq> set sts \<Longrightarrow>
   length ar' = length ad' \<and> length ad' = length ad + k \<and> (\<forall>r \<in> set ar'. set r \<subseteq> set sts)"
proof (induction k arbitrary: s tape ar ad)
  case 0
  then show ?case by simp
next
  case (Suc k)
  from Suc.prems(1) obtain r tp where
    c: "construct_solution s tape = Some (Inr (r, tp))"
    by (auto split: option.splits sum.splits)
  let ?d = "total_route_distance r (return_to_depot s)"
  let ?s = "if lt_bound ?d (best_distance s)
            then s\<lparr> best_distance := Finite ?d, best_route := Some r \<rparr> else s"
  from Suc.prems(1) c have
    run: "ants_loop k ?s tp (ar @ [r]) (ad @ [?d]) = Some (Inr (s', tape', ar', ad'))"
    by (simp add: Let_def)
  have sub: "set r \<subseteq> set sts"
    using visits_all_subset [OF construct_solution_visits_all [OF c Suc.prems(2)] Suc.prems(3)] .
  have "length ar' = length ad' \<and> length ad' = length (ad @ [?d]) + k \<and>
        (\<forall>r \<in> set ar'. set r \<subseteq> set sts)"
    by (rule Suc.IH [OF run]) (use Suc.prems sub in \<open>auto split: if_splits\<close>)
  then show ?case by simp
qed

lemma ants_loop_no_error:
  "stops s = Some sts \<Longrightarrow> sts \<noteq> [] \<Longrightarrow> pheromone_matrix s \<noteq> None \<Longrightarrow>
   visibility_matrix s \<noteq> None \<Longrightarrow> ants_loop k s tape ar ad \<noteq> Some (Inl e)"
proof (induction k arbitrary: s tape ar ad)
  case 0
  then show ?case by simp
next
  case (Suc k)
  note ne = construct_solution_no_error [OF Suc.prems, of tape]
  show ?case
  proof (cases "construct_solution s tape")
    case None
    then show ?thesis by simp
  next
    case (Some x)
    with ne obtain r tp where c: "construct_solution s tape = Some (Inr (r, tp))"
      by (cases x) auto
    let ?d = "total_route_distance r (return_to_depot s)"
    let ?s = "if lt_bound ?d (best_distance s)
              then s\<lparr> best_distance := Finite ?d, best_route := Some r \<rparr> else s"
    have "ants_loop k ?s tp (ar @ [r]) (ad @ [?d]) \<noteq> Some (Inl e)"
      by (rule Suc.IH) (use Suc.prems in \<open>auto split: if_splits\<close>)
    with c show ?thesis by (simp add: Let_def)
  qed
qed

lemma aco_loop_no_error:
  "stops s = Some sts \<Longrightarrow> sts \<noteq> [] \<Longrightarrow> pheromone_matrix s \<noteq> None \<Longrightarrow>
   visibility_matrix s \<noteq> None \<Longrightarrow> 0 < num_ants s \<Longrightarrow> aco_loop k s tape \<noteq> Some (Inl e)"
proof (induction k arbitrary: s tape)
  case 0
  then show ?case by simp
next
  case (Suc k)
  note ne = ants_loop_no_error [OF Suc.prems(1-4)]
  show ?case
  proof (cases "ants_loop (nat (num_ants s)) s tape [] []")
    case None
    then show ?thesis by simp
  next
    case (Some x)
    with ne obtain s1 tp ar ad where
      a: "ants_loop (nat (num_ants s)) s tape [] [] = Some (Inr (s1, tp, ar, ad))"
      by (cases x) auto
    note f1 = ants_loop_fields [OF a]
    from ants_loop_routes [OF a Suc.prems(1,2)] have
      l: "length ar = length ad" "length ad = nat (num_ants s)" "\<forall>r \<in> set ar. set r \<subseteq> set sts"
      by simp_all
    have "ad \<noteq> []" using l(2) Suc.prems(5) by auto
    from update_pheromones_succeeds [of s1 sts ad ar] this f1 l Suc.prems
    obtain s2 where u: "update_pheromones s1 ar ad = Inr s2"
      by auto
    note f2 = update_pheromones_fields [OF u]
    have "aco_loop k s2 tp \<noteq> Some (Inl e)"
      by (rule Suc.IH) (use f1 f2 Suc.prems in auto)
    with a u show ?thesis by simp
  qed
qed

lemma cluster_stops_no_error:
  assumes "stops s = Some sts" and "sts \<noteq> []" and "0 < num_clusters s"
  shows "cluster_stops s rs \<noteq> Some (Inl e)"
proof (cases "int (length sts) \<le> num_clusters s")
  case True
  with assms show ?thesis by (simp add: cluster_stops_def)
next
  case False
  show ?thesis
  proof (cases "random_sample rs (length sts) (num_clusters s)")
    case None
    with False assms(1) show ?thesis by (simp add: cluster_stops_def)
  next
    case (Some x)
    with False assms(3) obtain smp rs1 where
      r: "random_sample rs (length sts) (num_clusters s) = Some (Inr (smp, rs1))"
      and len: "length smp = nat (num_clusters s)"
      by (auto simp: random_sample_def split: if_splits list.splits)
    have "map (\<lambda>i. sts ! i) smp \<noteq> []" using len assms(3) by auto
    moreover have "length (map (\<lambda>i. sts ! i) smp) \<le> nat (num_clusters s)" using len by simp
    ultimately obtain cl where
      "kmeans_loop 100 sts (nat (num_clusters s)) (map (\<lambda>i. sts ! i) smp) [] = Inr cl"
      using kmeans_loop_succeeds [OF _ _ assms(2)] by blast
    with r False assms(1) show ?thesis by (simp add: cluster_stops_def)
  qed
qed

lemma optimize_setup_no_error:
  assumes "sts \<noteq> []" and "0 < num_clusters s"
  shows "optimize_setup s rs sts \<noteq> Some (Inl e)"
proof -
  let ?s1 = "s\<lparr> stops := Some sts, distance_matrix := Some (fill_distances sts),
                 visibility_matrix := Some (calculate_visibility_matrix sts) \<rparr>"
  have c: "cluster_stops ?s1 rs \<noteq> Some (Inl e)"
    by (rule cluster_stops_no_error [where sts = sts]) (use assms in simp_all)
  have i: "initialize_pheromones (?s1\<lparr> clusters := Some cl \<rparr>) \<noteq> Inl e" for cl
    by (simp add: initialize_pheromones_def Let_def)
  show ?thesis
    using c i by (auto simp: optimize_setup_def Let_def split: option.splits sum.splits)
qed

lemma optimize_route_no_error:
  assumes "sts \<noteq> []" and "0 < num_ants s" and "0 < num_clusters s"
  shows "optimize_route s rs sts \<noteq> Some (Inl e)"
proof (cases "length sts \<le> 2")
  case True
  with assms(1) show ?thesis by (simp add: optimize_route_def)
next
  case False
  show ?thesis
  proof (cases "optimize_setup s rs sts")
    case None
    with False assms(1) show ?thesis by (simp add: optimize_route_def)
  next
    case (Some x)
    with optimize_setup_no_error [OF assms(1,3), of rs] obtain s1 rs1 where
      su: "optimize_setup s rs sts = Some (Inr (s1, rs1))"
      by (cases x) auto
    note f = optimize_setup_fields [OF su]
    have "aco_loop (nat (iterations s1)) s1 (choices_results rs1) \<noteq> Some (Inl e)"
      by (rule aco_loop_no_error [where sts = sts]) (use f assms in auto)
    with su False assms(1) show ?thesis
      by (auto simp: optimize_route_def split: option.splits sum.splits)
  qed
qed

text \<open>
  C9.  On the empty stop list \<open>optimize_route\<close> raises the \<open>ValueError\<close> of its first
  check.  On a list of one or two stops it returns that list, and the optimizer and the
  random source are as before the call.  On a non-empty list it raises nothing, for an
  optimizer with a positive number of ants and of clusters, as the constructor makes it
  and every call leaves it.
\<close>

theorem optimize_route_small_inputs:
  "optimize_route s rs [] = Some (Inl (ValueError ''Stops list cannot be empty'')) \<and>
   (sts \<noteq> [] \<and> length sts \<le> 2 \<longrightarrow> optimize_route s rs sts = Some (Inr (Some sts, s, rs))) \<and>
   (sts \<noteq> [] \<and> 0 < num_ants s \<and> 0 < num_clusters s \<longrightarrow>
      (\<forall>e. optimize_route s rs sts \<noteq> Some (Inl e)))"
proof (intro conjI impI allI)
  show "optimize_route s rs [] = Some (Inl (ValueError ''Stops list cannot be empty''))"
    by (simp add: optimize_route_def)
next
  assume "sts \<noteq> [] \<and> length sts \<le> 2"
  then show "optimize_route s rs sts = Some (Inr (Some sts, s, rs))"
    by (simp add: optimize_route_def)
next
  fix e
  assume "sts \<noteq> [] \<and> 0 < num_ants s \<and> 0 < num_clusters s"
  then show "optimize_route s rs sts \<noteq> Some (Inl e)"
    using optimize_route_no_error [of sts s rs e] by blast
qed

theorem optimize_route_small_inputs_witness:
  "optimize_route CIACO_default \<lparr> sample_results = [], choices_results = [] \<rparr> [] =
     Some (Inl (ValueError ''Stops list cannot be empty'')) \<and>
   optimize_route CIACO_default \<lparr> sample_results = [], choices_results = [] \<rparr>
     [(0, 0), (1, 0)] =
     Some (Inr (Some [(0, 0), (1, 0)], CIACO_default,
                \<lparr> sample_results = [], choices_results = [] \<rparr>)) \<and>
   0 < num_ants CIACO_default \<and> 0 < num_clusters CIACO_default \<and>
   (\<forall>e. optimize_route CIACO_default
          \<lparr> sample_results = [], choices_results = in_order_draws 500 3 \<rparr>
          [(0, 0), (1, 0), (2, 0)] \<noteq> Some (Inl e))"
proof -
  let ?rs = "\<lparr> sample_results = [], choices_results = [] \<rparr>"
  let ?rs3 = "\<lparr> sample_results = [], choices_results = in_order_draws 500 3 \<rparr>"
  let ?two = "[(0, 0), (1, 0)] :: point list"
  let ?three = "[(0, 0), (1, 0), (2, 0)] :: point list"
  have pos: "0 < num_ants CIACO_default" "0 < num_clusters CIACO_default"
    by (simp_all add: CIACO_default_def)
  note t2 = optimize_route_small_inputs [of CIACO_default ?rs ?two]
  note t3 = optimize_route_small_inputs [of CIACO_default ?rs3 ?three]
  have 1: "optimize_route CIACO_default ?rs [] =
             Some (Inl (ValueError ''Stops list cannot be empty''))"
    by (rule conjunct1 [OF t2])
  have "?two \<noteq> [] \<and> length ?two \<le> 2" by simp
  with conjunct1 [OF conjunct2 [OF t2]]
  have 2: "optimize_route CIACO_default ?rs ?two = Some (Inr (Some ?two, CIACO_default, ?rs))"
    by (rule mp)
  have "?three \<noteq> [] \<and> 0 < num_ants CIACO_default \<and> 0 < num_clusters CIACO_default"
    using pos by simp
  with conjunct2 [OF conjunct2 [OF t3]]
  have 3: "\<forall>e. optimize_route CIACO_default ?rs3 ?three \<noteq> Some (Inl e)"
    by (rule mp)
  show ?thesis
    by (intro conjI) (fact 1 2 3 pos)+
qed

section \<open>The optimizer: two calls on one optimizer\<close>

lemma euclidean_distance_on_axis: "euclidean_distance (x1, 0) (x2, 0) = \<bar>x1 - x2\<bar>"
  by (simp add: euclidean_distance_def)

lemma upt_0_3: "[0..<3] = [0, 1, 2]"
  by (simp add: upt_rec numeral_3_eq_3)

lemma total_route_distance_A:
  "total_route_distance [(0, 0), (1, 0), (2, 0), (0, 0)] True = 4"
  by (simp add: total_route_distance_def upt_0_3 euclidean_distance_on_axis)

lemma total_route_distance_B:
  "total_route_distance [(0, 0), (10, 0), (20, 0), (0, 0)] True = 40"
  by (simp add: total_route_distance_def upt_0_3 euclidean_distance_on_axis)


text \<open>
  C6, the code at a failing input.  One optimizer \<open>CIACO()\<close> is asked for a route over
  stops A and then for a route over stops B, which lie further apart.  The fields
  \<open>best_route\<close> and \<open>best_distance\<close> are set by the constructor only, so the second call
  compares its routes of length 40 with the length 4 kept from the first call, keeps the
  old route, and returns it: a route over A.  A fresh optimizer with the same arguments
  and the same random draws returns a route over B.
\<close>

theorem optimize_route_second_call_returns_first_route:
  "\<exists>s1 s2 s3 rs2.
     optimize_route CIACO_default
       \<lparr> sample_results = [], choices_results = in_order_draws 500 3 @ in_order_draws 500 3 \<rparr>
       [(0, 0), (1, 0), (2, 0)] =
       Some (Inr (Some [(0, 0), (1, 0), (2, 0), (0, 0)], s1,
                  \<lparr> sample_results = [], choices_results = in_order_draws 500 3 \<rparr>)) \<and>
     optimize_route s1 \<lparr> sample_results = [], choices_results = in_order_draws 500 3 \<rparr>
       [(0, 0), (10, 0), (20, 0)] =
       Some (Inr (Some [(0, 0), (1, 0), (2, 0), (0, 0)], s2, rs2)) \<and>
     optimize_route CIACO_default
       \<lparr> sample_results = [], choices_results = in_order_draws 500 3 \<rparr>
       [(0, 0), (10, 0), (20, 0)] =
       Some (Inr (Some [(0, 0), (10, 0), (20, 0), (0, 0)], s3, rs2))"
proof -
  let ?A = "[(0, 0), (1, 0), (2, 0)] :: point list"
  let ?B = "[(0, 0), (10, 0), (20, 0)] :: point list"
  let ?rA = "[(0, 0), (1, 0), (2, 0), (0, 0)] :: point list"
  let ?rB = "[(0, 0), (10, 0), (20, 0), (0, 0)] :: point list"
  let ?t = "in_order_draws 500 3"
  let ?rs0 = "\<lparr> sample_results = [], choices_results = ?t @ ?t \<rparr>"
  let ?rs1 = "\<lparr> sample_results = [], choices_results = ?t \<rparr>"
  let ?rs2 = "\<lparr> sample_results = [], choices_results = [] \<rparr>"
  have cfg: "num_ants CIACO_default = 10" "iterations CIACO_default = 50"
    "num_clusters CIACO_default = 3" "return_to_depot CIACO_default"
    "best_distance CIACO_default = Infinity" "best_route CIACO_default = None"
    by (simp_all add: CIACO_default_def)
  have lA: "2 < length ?A" and lB: "2 < length ?B" by simp_all
  have "\<exists>s'. optimize_route CIACO_default ?rs0 ?A =
           Some (Inr (if 0 < iterations CIACO_default \<and> lt_bound 4 (best_distance CIACO_default)
                      then Some ?rA else best_route CIACO_default,
                      s', (after_sample CIACO_default ?rs0 (length ?A))\<lparr> choices_results := ?t \<rparr>)) \<and>
           best_route s' = (if 0 < iterations CIACO_default \<and> lt_bound 4 (best_distance CIACO_default)
                            then Some ?rA else best_route CIACO_default) \<and>
           best_distance s' = (if 0 < iterations CIACO_default \<and> lt_bound 4 (best_distance CIACO_default)
                               then Finite 4 else best_distance CIACO_default) \<and>
           config s' = config CIACO_default"
    by (rule optimize_route_in_order [OF lA])
       (simp_all add: cfg sample_ready_def in_order_route_def total_route_distance_A
          numeral_3_eq_3)
  then obtain s1 where
    run1: "optimize_route CIACO_default ?rs0 ?A = Some (Inr (Some ?rA, s1, ?rs1))"
    and b1: "best_route s1 = Some ?rA" "best_distance s1 = Finite 4"
    and c1: "config s1 = config CIACO_default"
    by (auto simp: cfg after_sample_def)
  from c1 have cfg1: "num_ants s1 = 10" "iterations s1 = 50" "num_clusters s1 = 3"
    "return_to_depot s1"
    by (simp_all add: config_def cfg)
  have "\<exists>s'. optimize_route s1 ?rs1 ?B =
           Some (Inr (if 0 < iterations s1 \<and> lt_bound 40 (best_distance s1)
                      then Some ?rB else best_route s1,
                      s', (after_sample s1 ?rs1 (length ?B))\<lparr> choices_results := [] \<rparr>)) \<and>
           best_route s' = (if 0 < iterations s1 \<and> lt_bound 40 (best_distance s1)
                            then Some ?rB else best_route s1) \<and>
           best_distance s' = (if 0 < iterations s1 \<and> lt_bound 40 (best_distance s1)
                               then Finite 40 else best_distance s1) \<and>
           config s' = config s1"
    by (rule optimize_route_in_order [OF lB])
       (simp_all add: cfg1 sample_ready_def in_order_route_def total_route_distance_B
          numeral_3_eq_3)
  then obtain s2 where
    run2: "optimize_route s1 ?rs1 ?B = Some (Inr (Some ?rA, s2, ?rs2))"
    by (auto simp: cfg1 b1 after_sample_def)
  have "\<exists>s'. optimize_route CIACO_default ?rs1 ?B =
           Some (Inr (if 0 < iterations CIACO_default \<and> lt_bound 40 (best_distance CIACO_default)
                      then Some ?rB else best_route CIACO_default,
                      s', (after_sample CIACO_default ?rs1 (length ?B))\<lparr> choices_results := [] \<rparr>)) \<and>
           best_route s' = (if 0 < iterations CIACO_default \<and> lt_bound 40 (best_distance CIACO_default)
                            then Some ?rB else best_route CIACO_default) \<and>
           best_distance s' = (if 0 < iterations CIACO_default \<and> lt_bound 40 (best_distance CIACO_default)
                               then Finite 40 else best_distance CIACO_default) \<and>
           config s' = config CIACO_default"
    by (rule optimize_route_in_order [OF lB])
       (simp_all add: cfg sample_ready_def in_order_route_def total_route_distance_B
          numeral_3_eq_3)
  then obtain s3 where
    run3: "optimize_route CIACO_default ?rs1 ?B = Some (Inr (Some ?rB, s3, ?rs2))"
    by (auto simp: cfg after_sample_def)
  from run1 run2 run3 show ?thesis by blast
qed

section \<open>The optimizer: pheromone initialisation\<close>

lemma square_row: "square n m \<Longrightarrow> i < n \<Longrightarrow> length (m ! i) = n"
  by (simp add: square_def list_all_length)

lemma square_scale_entry: "square n m \<Longrightarrow> square n (scale_entry m i j c)"
  by (cases "i < length m")
     (auto simp: square_def scale_entry_def list_all_length nth_list_update)

lemma scale_entry_nth:
  assumes "square n m" and "i < n" and "j < n" and "a < n" and "b < n"
  shows "scale_entry m i j c ! a ! b = (if a = i \<and> b = j then m ! a ! b * c else m ! a ! b)"
proof -
  have "length m = n" and "length (m ! i) = n"
    using assms(1,2) by (simp_all add: square_def list_all_length)
  with assms(2-5) show ?thesis
    by (simp add: scale_entry_def nth_list_update)
qed

lemma square_strengthen: "square n m \<Longrightarrow> square n (strengthen m ij)"
  by (simp add: strengthen_def square_scale_entry)

lemma strengthen_nth:
  assumes "square n m" and "fst ij < n" and "snd ij < n" and "fst ij \<noteq> snd ij"
    and "a < n" and "b < n"
  shows "strengthen m ij ! a ! b =
           m ! a ! b * (3 / 2) ^ ((if (a, b) = ij then 1 else 0) +
                                  (if (b, a) = ij then 1 else 0))"
proof -
  obtain i j where ij: "ij = (i, j)" by (cases ij)
  let ?m1 = "scale_entry m i j (3 / 2)"
  have s1: "square n ?m1" using assms(1) by (rule square_scale_entry)
  have "strengthen m ij ! a ! b =
          (if a = j \<and> b = i then ?m1 ! a ! b * (3 / 2) else ?m1 ! a ! b)"
    using scale_entry_nth [OF s1, of j i a b] assms ij by (simp add: strengthen_def)
  also have "?m1 ! a ! b = (if a = i \<and> b = j then m ! a ! b * (3 / 2) else m ! a ! b)"
    using scale_entry_nth [OF assms(1), of i j a b] assms ij by simp
  finally show ?thesis
    using assms(4) ij by auto
qed

lemma foldl_strengthen_square: "square n m \<Longrightarrow> square n (foldl strengthen m ps)"
  by (induction ps arbitrary: m) (simp_all add: square_strengthen)

lemma foldl_strengthen_nth:
  assumes "square n m" and "list_all (\<lambda>ij. fst ij < n \<and> snd ij < n \<and> fst ij \<noteq> snd ij) ps"
    and "a < n" and "b < n"
  shows "foldl strengthen m ps ! a ! b =
           m ! a ! b * (3 / 2) ^ (count_list ps (a, b) + count_list ps (b, a))"
  using assms(1,2)
proof (induction ps arbitrary: m)
  case Nil
  then show ?case by simp
next
  case (Cons ij ps)
  have sq: "square n (strengthen m ij)" using Cons.prems(1) by (rule square_strengthen)
  from Cons.prems(2) have ok: "fst ij < n" "snd ij < n" "fst ij \<noteq> snd ij"
    and rest: "list_all (\<lambda>ij. fst ij < n \<and> snd ij < n \<and> fst ij \<noteq> snd ij) ps"
    by simp_all
  define k1 :: nat where "k1 = (if (a, b) = ij then 1 else 0) + (if (b, a) = ij then 1 else 0)"
  define k2 where "k2 = count_list ps (a, b) + count_list ps (b, a)"
  obtain i j where ij: "ij = (i, j)" by (cases ij)
  have "count_list (ij # ps) (a, b) = (if (a, b) = ij then 1 else 0) + count_list ps (a, b)"
    and "count_list (ij # ps) (b, a) = (if (b, a) = ij then 1 else 0) + count_list ps (b, a)"
    unfolding ij by (simp_all add: eq_commute [of i] eq_commute [of j])
  then have c: "count_list (ij # ps) (a, b) + count_list (ij # ps) (b, a) = k1 + k2"
    unfolding k1_def k2_def by (simp only: ac_simps)
  have "foldl strengthen (strengthen m ij) ps ! a ! b = strengthen m ij ! a ! b * (3 / 2) ^ k2"
    unfolding k2_def by (rule Cons.IH [OF sq rest])
  also have "strengthen m ij ! a ! b = m ! a ! b * (3 / 2) ^ k1"
    unfolding k1_def by (rule strengthen_nth [OF Cons.prems(1) ok assms(3,4)])
  finally have "foldl strengthen m (ij # ps) ! a ! b = m ! a ! b * (3 / 2) ^ (k1 + k2)"
    by (simp add: power_add)
  then show ?case
    by (simp only: c)
qed


lemma count_list_distinct: "distinct xs \<Longrightarrow> count_list xs a = (if a \<in> set xs then 1 else 0)"
  by (induction xs) auto

lemma count_pairs_row:
  "count_list (map (Pair i) (filter (\<lambda>j. i \<noteq> j) c)) (a, b) =
     (if a = i \<and> a \<noteq> b then count_list c b else 0)"
  by (induction c) auto

lemma count_pairs_rows:
  "count_list (concat (map (\<lambda>i. map (Pair i) (filter (\<lambda>j. i \<noteq> j) c)) xs)) (a, b) =
     (if a \<noteq> b then count_list xs a * count_list c b else 0)"
  by (induction xs) (auto simp: count_pairs_row)

lemma count_cluster_pairs:
  "count_list (cluster_pairs cl) (a, b) =
     (if a \<noteq> b then sum_list (map (\<lambda>c. count_list c a * count_list c b) cl) else 0)"
  by (induction cl) (auto simp: cluster_pairs_def count_pairs_rows)

lemma count_sum_absent:
  "a \<notin> set (concat cl) \<or> b \<notin> set (concat cl) \<Longrightarrow>
   sum_list (map (\<lambda>c. count_list c a * count_list c b) cl) = 0"
  by (induction cl) auto

lemma same_cluster_mem: "same_cluster cl a b \<Longrightarrow> a \<in> set (concat cl) \<and> b \<in> set (concat cl)"
  by (auto simp: same_cluster_def list_ex_iff)

lemma count_sum_partition:
  "distinct (concat cl) \<Longrightarrow>
   sum_list (map (\<lambda>c. count_list c a * count_list c b) cl) =
     (if same_cluster cl a b then 1 else 0)"
proof (induction cl)
  case Nil
  then show ?case by (simp add: same_cluster_def)
next
  case (Cons c cl)
  from Cons.prems have d: "distinct c" "distinct (concat cl)"
    and dis: "set c \<inter> set (concat cl) = {}"
    by simp_all
  have sc: "same_cluster (c # cl) a b = ((a \<in> set c \<and> b \<in> set c) \<or> same_cluster cl a b)"
    by (simp add: same_cluster_def)
  show ?case
  proof (cases "a \<in> set c \<or> b \<in> set c")
    case True
    with dis have ab: "a \<notin> set (concat cl) \<or> b \<notin> set (concat cl)" by auto
    then have "\<not> same_cluster cl a b" using same_cluster_mem by blast
    with count_sum_absent [OF ab] True d(1) sc show ?thesis
      by (auto simp: count_list_distinct)
  next
    case False
    with Cons.IH [OF d(2)] sc show ?thesis by simp
  qed
qed

lemma cluster_pairs_in_range:
  assumes "set (concat cl) \<subseteq> {..<n}"
  shows "list_all (\<lambda>ij. fst ij < n \<and> snd ij < n \<and> fst ij \<noteq> snd ij) (cluster_pairs cl)"
  using assms by (auto simp: cluster_pairs_def list_all_iff)

lemma fill_diagonal_ones:
  "square n (fill_diagonal (replicate n (replicate n v)) 0) \<and>
   (a < n \<longrightarrow> b < n \<longrightarrow>
      fill_diagonal (replicate n (replicate n v)) 0 ! a ! b = (if a = b then 0 else v))"
  by (auto simp: fill_diagonal_def square_def list_all_length)

lemma initialize_pheromones_entries:
  assumes "stops s = Some sts" and "clusters s = Some cl"
    and "mset (concat cl) = mset [0..<length sts]"
    and "initialize_pheromones s = Inr s'"
    and "a < length sts" and "b < length sts"
  shows "\<exists>pm. pheromone_matrix s' = Some pm \<and>
           pm ! a ! b =
             (if a = b then 0
              else if same_cluster cl a b then initial_pheromone s * (9 / 4)
              else initial_pheromone s)"
proof -
  let ?n = "length sts"
  let ?m0 = "fill_diagonal (replicate ?n (replicate ?n (1 * initial_pheromone s))) 0"
  let ?pm = "foldl strengthen ?m0 (cluster_pairs cl)"
  from assms(1,2,4) have pm: "pheromone_matrix s' = Some ?pm"
    by (auto simp: initialize_pheromones_def Let_def)
  have "set (concat cl) = set [0..<?n]" using assms(3) by (rule mset_eq_setD)
  then have rng: "set (concat cl) \<subseteq> {..<?n}" by auto
  have dc: "distinct (concat cl)"
    using assms(3) by (metis distinct_upt mset_eq_imp_distinct_iff)
  have sq: "square ?n ?m0" using fill_diagonal_ones by blast
  have e0: "?m0 ! a ! b = (if a = b then 0 else initial_pheromone s)"
    using fill_diagonal_ones [of ?n "1 * initial_pheromone s" a b] assms(5,6) by simp
  have "?pm ! a ! b =
          ?m0 ! a ! b * (3 / 2) ^ (count_list (cluster_pairs cl) (a, b) +
                                    count_list (cluster_pairs cl) (b, a))"
    by (rule foldl_strengthen_nth [OF sq cluster_pairs_in_range [OF rng] assms(5,6)])
  moreover have "count_list (cluster_pairs cl) (a, b) =
                   (if a \<noteq> b \<and> same_cluster cl a b then 1 else 0)"
    by (simp add: count_cluster_pairs count_sum_partition [OF dc])
  moreover have "count_list (cluster_pairs cl) (b, a) =
                   (if a \<noteq> b \<and> same_cluster cl a b then 1 else 0)"
    by (auto simp: count_cluster_pairs count_sum_partition [OF dc] same_cluster_def
        list_ex_iff)
  ultimately have "?pm ! a ! b =
      (if a = b then 0
       else if same_cluster cl a b then initial_pheromone s * (9 / 4)
       else initial_pheromone s)"
    using e0 by (simp add: power2_eq_square)
  with pm show ?thesis by simp
qed

lemma optimize_setup_pheromones:
  assumes "optimize_setup s rs sts = Some (Inr (s', rs'))"
    and "a < length sts" and "b < length sts"
  shows "\<exists>pm cl. pheromone_matrix s' = Some pm \<and> clusters s' = Some cl \<and>
           mset (concat cl) = mset [0..<length sts] \<and>
           pm ! a ! b =
             (if a = b then 0
              else if same_cluster cl a b then initial_pheromone s * (9 / 4)
              else initial_pheromone s)"
proof -
  let ?s1 = "s\<lparr> stops := Some sts, distance_matrix := Some (fill_distances sts),
                 visibility_matrix := Some (calculate_visibility_matrix sts) \<rparr>"
  from assms(1) obtain cl where c: "cluster_stops ?s1 rs = Some (Inr (cl, rs'))"
    and i: "initialize_pheromones (?s1\<lparr> clusters := Some cl \<rparr>) = Inr s'"
    by (auto simp: optimize_setup_def Let_def split: option.splits sum.splits)
  have part: "mset (concat cl) = mset [0..<length sts]"
    by (rule cluster_stops_partition [OF c]) simp
  from initialize_pheromones_fields [OF i] have
    e: "s' = ?s1\<lparr> clusters := Some cl, pheromone_matrix := pheromone_matrix s' \<rparr>"
    by simp
  have cl: "clusters s' = Some cl" by (subst e) simp
  from initialize_pheromones_entries [OF _ _ part i assms(2,3)]
  obtain pm where "pheromone_matrix s' = Some pm"
    "pm ! a ! b = (if a = b then 0
                   else if same_cluster cl a b then initial_pheromone s * (9 / 4)
                   else initial_pheromone s)"
    by auto
  with cl part show ?thesis by simp
qed

end
